theory Spec2Isabelle
  imports Main "HOL-Library.Sublist"
begin

section \<open>Python strings\<close>

text \<open>
  A Python \<open>str\<close> is a sequence of Unicode code points; a code point is modelled as a
  natural number and ASCII literals are written \<open>py ''...''\<close>.  Files hold bytes
  (\<open>char list\<close>, an Isabelle \<open>char\<close> being eight bits).
\<close>

type_synonym pystr = "nat list"

abbreviation py :: "string \<Rightarrow> pystr" where
  "py s \<equiv> map of_char s"

text \<open>\<open>str.isspace\<close> per code point, the set that \<open>str.strip()\<close> removes.\<close>

definition is_space :: "nat \<Rightarrow> bool" where
  "is_space c \<longleftrightarrow>
     (9 \<le> c \<and> c \<le> 13) \<or> (28 \<le> c \<and> c \<le> 32) \<or> c = 133 \<or> c = 160 \<or> c = 5760 \<or>
     (8192 \<le> c \<and> c \<le> 8202) \<or> c = 8232 \<or> c = 8233 \<or> c = 8239 \<or> c = 8287 \<or> c = 12288"

definition strip :: "pystr \<Rightarrow> pystr" where
  "strip s = rev (dropWhile is_space (rev (dropWhile is_space s)))"

text \<open>
  \<open>\d\<close> of a \<open>str\<close> pattern matches the decimal digits of every script (category Nd).
  They come in blocks of ten consecutive code points; the table lists the first code
  point of each block (Unicode 14, the database of CPython 3.11).
\<close>

definition decimal_blocks :: "nat list" where
  "decimal_blocks =
     [48, 1632, 1776, 1984, 2406, 2534, 2662, 2790, 2918, 3046, 3174, 3302, 3430, 3558,
      3664, 3792, 3872, 4160, 4240, 6112, 6160, 6470, 6608, 6784, 6800, 6992, 7088, 7232,
      7248, 42528, 43216, 43264, 43472, 43504, 43600, 44016, 65296, 66720, 68912, 69734,
      69872, 69942, 70096, 70384, 70736, 70864, 71248, 71360, 71472, 71904, 72016, 72784,
      73040, 73120, 92768, 92864, 93008, 120782, 120792, 120802, 120812, 120822, 123200,
      123632, 125264, 130032]"

definition is_decimal :: "nat \<Rightarrow> bool" where
  "is_decimal c \<longleftrightarrow> list_ex (\<lambda>b. b \<le> c \<and> c < b + 10) decimal_blocks"

section \<open>PLACEHOLDER_PATTERN\<close>

text \<open>
  The pattern is one group of six alternatives.  Each alternative is a function from the
  text at the current position to the length of its match there, if it matches; the
  alternation takes the first alternative that matches, in the order of the source.
\<close>

text \<open>The class \<open>[@dlld]\<close>.\<close>

definition is_fmt :: "nat \<Rightarrow> bool" where
  "is_fmt c \<longleftrightarrow> c = of_char CHR ''@'' \<or> c = of_char CHR ''d'' \<or> c = of_char CHR ''l''"

text \<open>\<open>%[@dlld]+\<close>: the class repeats greedily and nothing follows it.\<close>

definition alt_printf :: "pystr \<Rightarrow> nat option" where
  "alt_printf s =
     (case s of
        [] \<Rightarrow> None
      | c # r \<Rightarrow>
          if c = of_char CHR ''%'' \<and> takeWhile is_fmt r \<noteq> []
          then Some (1 + length (takeWhile is_fmt r)) else None)"

text \<open>
  \<open>%\d+\$[@dlld]+\<close>: the digits repeat greedily; giving digits back cannot help, since
  the next character has to be \<open>$\<close>.
\<close>

definition alt_positional :: "pystr \<Rightarrow> nat option" where
  "alt_positional s =
     (case s of
        [] \<Rightarrow> None
      | c # r \<Rightarrow>
          if c = of_char CHR ''%'' \<and> takeWhile is_decimal r \<noteq> [] then
            (case dropWhile is_decimal r of
               [] \<Rightarrow> None
             | d # r' \<Rightarrow>
                 if d = of_char CHR ''$'' \<and> takeWhile is_fmt r' \<noteq> []
                 then Some (2 + length (takeWhile is_decimal r) + length (takeWhile is_fmt r'))
                 else None)
          else None)"

text \<open>
  \<open>\$\(.*?\)\<close>: the lazy \<open>.*?\<close> stops at the first \<open>)\<close>; \<open>.\<close> matches every character
  but the line feed, so a line feed before the first \<open>)\<close> makes the alternative fail.
\<close>

definition alt_variable :: "pystr \<Rightarrow> nat option" where
  "alt_variable s =
     (case s of
        c # d # r \<Rightarrow>
          if c = of_char CHR ''$'' \<and> d = of_char CHR ''('' then
            (case dropWhile (\<lambda>x. x \<noteq> of_char CHR '')'' \<and> x \<noteq> 10) r of
               [] \<Rightarrow> None
             | e # _ \<Rightarrow>
                 if e = of_char CHR '')''
                 then Some (3 + length (takeWhile (\<lambda>x. x \<noteq> of_char CHR '')'' \<and> x \<noteq> 10) r))
                 else None)
          else None
      | _ \<Rightarrow> None)"

text \<open>\<open>\{\d+\}\<close>.\<close>

definition alt_brace :: "pystr \<Rightarrow> nat option" where
  "alt_brace s =
     (case s of
        [] \<Rightarrow> None
      | c # r \<Rightarrow>
          if c = of_char CHR ''{'' \<and> takeWhile is_decimal r \<noteq> [] then
            (case dropWhile is_decimal r of
               [] \<Rightarrow> None
             | d # _ \<Rightarrow>
                 if d = of_char CHR ''}'' then Some (2 + length (takeWhile is_decimal r))
                 else None)
          else None)"

text \<open>
  The temperature alternative: in the source file it is the three code points U+00C2,
  U+00B0 and then \<open>C\<close> or \<open>F\<close>.
\<close>

definition alt_temperature :: "pystr \<Rightarrow> nat option" where
  "alt_temperature s =
     (case s of
        a # b # c # _ \<Rightarrow>
          if a = 194 \<and> b = 176 \<and> (c = of_char CHR ''C'' \<or> c = of_char CHR ''F'')
          then Some 3 else None
      | _ \<Rightarrow> None)"

text \<open>
  The symbol alternative: in the source file it is the four code points U+00F0, U+0178,
  U+2019, U+00A7.
\<close>

definition alt_symbol :: "pystr \<Rightarrow> nat option" where
  "alt_symbol s = (if prefix [240, 376, 8217, 167] s then Some 4 else None)"

fun first_match :: "nat option list \<Rightarrow> nat option" where
  "first_match [] = None"
| "first_match (Some n # _) = Some n"
| "first_match (None # rs) = first_match rs"

text \<open>The length of the match of \<open>PLACEHOLDER_PATTERN\<close> that starts at the head of \<open>s\<close>.\<close>

definition match_at :: "pystr \<Rightarrow> nat option" where
  "match_at s =
     first_match [alt_printf s, alt_positional s, alt_variable s, alt_brace s,
                  alt_temperature s, alt_symbol s]"

text \<open>
  \<open>PLACEHOLDER_PATTERN.finditer(text)\<close>, as the list of the matched texts
  (\<open>match.group(0)\<close>) from left to right.  The scan resumes where a match ends; a match
  has at least two characters, so after a match of length \<open>n\<close> at \<open>c # cs\<close> the rest is
  \<open>drop (n - 1) cs\<close>.
\<close>

fun finditer :: "pystr \<Rightarrow> pystr list" where
  "finditer [] = []"
| "finditer (c # cs) =
     (case match_at (c # cs) of
        None \<Rightarrow> finditer cs
      | Some n \<Rightarrow> take n (c # cs) # finditer (drop (n - 1) cs))"

text \<open>\<open>PLACEHOLDER_PATTERN.sub('', text)\<close>: the text with every match removed.\<close>

fun sub_empty :: "pystr \<Rightarrow> pystr" where
  "sub_empty [] = []"
| "sub_empty (c # cs) =
     (case match_at (c # cs) of
        None \<Rightarrow> c # sub_empty cs
      | Some n \<Rightarrow> sub_empty (drop (n - 1) cs))"

section \<open>PlaceholderValidator\<close>

text \<open>
  \<open>PlaceholderValidator.extract_placeholders\<close> is \<open>findall\<close>; the pattern has exactly one
  group, which spans the whole pattern, so the list holds the matched texts.
\<close>

definition validator_extract_placeholders :: "pystr \<Rightarrow> pystr list" where
  "validator_extract_placeholders text = finditer text"

text \<open>
  The three messages of \<open>validate\<close>.  The missing and the extra placeholders are joined
  in the iteration order of a Python set, which is not determined; the message is
  modelled by the set it lists.
\<close>

datatype validation_error =
    CountMismatch nat nat
  | MissingPlaceholders "pystr set"
  | ExtraPlaceholders "pystr set"

text \<open>\<open>validate\<close> returns \<open>(True, None)\<close>, here \<open>None\<close>, or \<open>(False, message)\<close>.\<close>

definition validate :: "pystr \<Rightarrow> pystr \<Rightarrow> validation_error option" where
  "validate original translated =
     (let original_placeholders = validator_extract_placeholders original;
          translated_placeholders = validator_extract_placeholders translated
      in if length original_placeholders \<noteq> length translated_placeholders
         then Some (CountMismatch (length original_placeholders) (length translated_placeholders))
         else let original_set = set original_placeholders;
                  translated_set = set translated_placeholders
              in if original_set - translated_set \<noteq> {}
                 then Some (MissingPlaceholders (original_set - translated_set))
                 else if translated_set - original_set \<noteq> {}
                 then Some (ExtraPlaceholders (translated_set - original_set))
                 else None)"

section \<open>XLIFFTranslator: placeholders and markers\<close>

text \<open>\<open>str(i)\<close> for a natural number: its decimal digits.\<close>

fun str_of_nat :: "nat \<Rightarrow> pystr" where
  "str_of_nat n = (if n < 10 then [48 + n] else str_of_nat (n div 10) @ [48 + n mod 10])"

declare str_of_nat.simps [simp del]

text \<open>The marker \<open>f"__PH{i}__"\<close>.\<close>

definition marker :: "nat \<Rightarrow> pystr" where
  "marker i = py ''__PH'' @ str_of_nat i @ py ''__''"

text \<open>
  \<open>s.replace(old, new, 1)\<close>: the leftmost occurrence of \<open>old\<close> is replaced.  An empty
  \<open>old\<close> occurs at the start of every string, also of the empty one.
\<close>

fun replace_first :: "pystr \<Rightarrow> pystr \<Rightarrow> pystr \<Rightarrow> pystr" where
  "replace_first old new [] = (if old = [] then new else [])"
| "replace_first old new (c # cs) =
     (if prefix old (c # cs) then new @ drop (length old) (c # cs)
      else c # replace_first old new cs)"

text \<open>
  \<open>s.replace(old, new)\<close>: every occurrence, found from left to right without overlap.
  An empty \<open>old\<close> occurs before every character and at the end.
\<close>

fun replace_all :: "pystr \<Rightarrow> pystr \<Rightarrow> pystr \<Rightarrow> pystr" where
  "replace_all old new [] = (if old = [] then new else [])"
| "replace_all old new (c # cs) =
     (if old = [] then new @ c # replace_all old new cs
      else if prefix old (c # cs) then new @ replace_all old new (drop (length old - 1) cs)
      else c # replace_all old new cs)"

text \<open>
  The loop of \<open>extract_placeholders\<close> over \<open>enumerate(matches)\<close>: \<open>i\<close> is the index of
  the next match, \<open>modified_text\<close> and \<open>placeholders\<close> are the two variables it updates.
\<close>

fun extract_loop ::
  "nat \<Rightarrow> pystr list \<Rightarrow> pystr \<Rightarrow> (pystr \<times> pystr) list \<Rightarrow> pystr \<times> (pystr \<times> pystr) list"
where
  "extract_loop i [] modified_text placeholders = (modified_text, placeholders)"
| "extract_loop i (placeholder # matches) modified_text placeholders =
     extract_loop (Suc i) matches
       (replace_first placeholder (marker i) modified_text)
       (placeholders @ [(marker i, placeholder)])"

definition extract_placeholders :: "pystr \<Rightarrow> pystr \<times> (pystr \<times> pystr) list" where
  "extract_placeholders text = extract_loop 0 (finditer text) text []"

fun restore_placeholders :: "pystr \<Rightarrow> (pystr \<times> pystr) list \<Rightarrow> pystr" where
  "restore_placeholders text [] = text"
| "restore_placeholders text ((mark, placeholder) # placeholders) =
     restore_placeholders (replace_all mark placeholder text) placeholders"

section \<open>XLIFFTranslator: the skip policy\<close>

definition UNITS :: "pystr list" where
  "UNITS = [py ''kg'', py ''lbs'', py ''ml'', py ''oz'', py ''min'', py ''sec'', py ''hr'',
            py ''km'', py ''mi'', py ''ft'', py ''in'', py ''m'', py ''cm'']"

definition PUNCTUATION :: "pystr list" where
  "PUNCTUATION = [py ''.'', py '','', py ''!'', py ''?'', py ''...'', py '':'', py '';'']"

text \<open>\<open>not text or not text.strip()\<close> is \<open>strip text = []\<close>: the empty text strips to itself.\<close>

definition should_skip_translation :: "pystr \<Rightarrow> bool" where
  "should_skip_translation text =
     (if text = [] \<or> strip text = [] then True
      else if strip text \<in> set UNITS then True
      else let clean_text = strip (sub_empty text)
           in if clean_text = [] \<or> clean_text \<in> set PUNCTUATION then True else False)"

text \<open>
  The skip policy as the specification words it: the text is empty or only whitespace,
  or its trimmed form is a unit literal, or what remains when every placeholder is
  removed is empty or is one of the punctuation tokens.
\<close>

definition should_skip_spec :: "pystr \<Rightarrow> bool" where
  "should_skip_spec text \<longleftrightarrow>
     text = [] \<or> strip text = [] \<or> strip text \<in> set UNITS \<or>
     sub_empty text = [] \<or> sub_empty text \<in> set PUNCTUATION"

section \<open>XLIFFTranslator.translate_text\<close>

text \<open>
  The two error messages of \<open>translate_text\<close>: \<open>"Placeholder validation failed: ..."\<close>
  with the message of \<open>validate\<close>, and \<open>"Translation error: ..."\<close> with the text of the
  exception caught.
\<close>

datatype translate_error =
    PlaceholderValidationFailed validation_error
  | TranslationError pystr

text \<open>
  What one call of \<open>translate_text\<close> does: the pair it returns, the text it handed to
  \<open>translator.translate\<close> (if it got that far), and the warning it printed (if any).
\<close>

record translation =
  returned_text :: pystr
  returned_error :: "translate_error option"
  request :: "pystr option"
  warning :: "translate_error option"

text \<open>
  The translation service is outside the program: \<open>translate\<close> stands for
  \<open>GoogleTranslator(source=source_lang, target=target_lang).translate\<close>, the two
  languages fixed by the caller.  It answers \<open>Inr\<close> the translated text, or \<open>Inl\<close> the
  text of the exception raised inside the \<open>try\<close> block (a refused language, a failed
  request, or an answer that is not a string, on which the next statement raises).
\<close>

definition translate_text :: "bool \<Rightarrow> (pystr \<Rightarrow> pystr + pystr) \<Rightarrow> pystr \<Rightarrow> translation" where
  "translate_text fail_on_placeholder_mismatch translate text =
     (if should_skip_translation text
      then \<lparr>returned_text = text, returned_error = None, request = None, warning = None\<rparr>
      else
        let text_to_translate = fst (extract_placeholders text);
            placeholders = snd (extract_placeholders text)
        in if strip text_to_translate = []
           then \<lparr>returned_text = text, returned_error = None, request = None, warning = None\<rparr>
           else
             (case translate text_to_translate of
                Inl e \<Rightarrow>
                  \<lparr>returned_text = text, returned_error = Some (TranslationError e),
                   request = Some text_to_translate, warning = None\<rparr>
              | Inr answer \<Rightarrow>
                  let translated =
                        (if placeholders \<noteq> [] then restore_placeholders answer placeholders
                         else answer)
                  in (case validate text translated of
                        None \<Rightarrow>
                          \<lparr>returned_text = translated, returned_error = None,
                           request = Some text_to_translate, warning = None\<rparr>
                      | Some error \<Rightarrow>
                          if fail_on_placeholder_mismatch
                          then \<lparr>returned_text = text,
                                returned_error = Some (PlaceholderValidationFailed error),
                                request = Some text_to_translate, warning = None\<rparr>
                          else \<lparr>returned_text = translated, returned_error = None,
                                request = Some text_to_translate,
                                warning = Some (PlaceholderValidationFailed error)\<rparr>)))"

section \<open>XLIFF documents and the file system\<close>

text \<open>
  A \<open>trans-unit\<close> element, as far as \<open>process_xliff_file\<close> looks at it: its first
  \<open>source\<close> child (absent, or present with its \<open>text\<close>, which is \<open>None\<close> for an empty
  element) and its first \<open>target\<close> child (absent, or present with its \<open>text\<close> and its
  \<open>state\<close> attribute).
\<close>

record target_element =
  target_text :: "pystr option"
  target_state :: "pystr option"

record trans_unit =
  unit_source :: "pystr option option"
  unit_target :: "target_element option"

text \<open>An entry of \<open>self.errors\<close>.\<close>

record error_record =
  error_file :: string
  error_text :: pystr
  error_message :: translate_error

text \<open>
  The lines the translator prints: the warning of \<open>translate_text\<close>, and the error line
  of \<open>process_xliff_file\<close> with the name of the file.
\<close>

datatype message =
    WARNING translate_error
  | ERROR_processing string

text \<open>
  The state outside one call: the bytes of the files by path, \<open>self.errors\<close>, the texts
  handed to the translation service so far, and the lines printed.
\<close>

record state =
  files :: "string \<Rightarrow> string option"
  errors :: "error_record list"
  requests :: "pystr list"
  printed :: "message list"

text \<open>
  What the program takes from its libraries and its platform:
  \<^item> the UTF-8 codec (decoding fails on bytes that are not UTF-8) and \<open>os.linesep\<close>;
  \<^item> \<open>xliff_path.name\<close>, the last component of a path;
  \<^item> the XML parser (\<open>ET.parse\<close> and \<open>findall\<close>, from the bytes of the file to its
    \<open>trans-unit\<close> elements in document order; \<open>None\<close> when it raises);
  \<^item> whether the XML library takes a string as the text of an element:
    \<open>xml.etree.ElementTree\<close> takes every string, \<open>lxml\<close> raises \<open>ValueError\<close> on a string
    that holds a character XML does not allow, a control character for one;
  \<^item> \<open>tree.write\<close>, from the bytes parsed and the units as the loop left them to the
    bytes found in the file afterwards; \<open>None\<close> when it raises;
  \<^item> the translation service, whose answer may depend on the requests made before.
\<close>

record env =
  utf8_decode :: "string \<Rightarrow> pystr option"
  utf8_encode :: "pystr \<Rightarrow> string"
  linesep :: pystr
  path_name :: "string \<Rightarrow> string"
  xml_parse :: "string \<Rightarrow> trans_unit list option"
  xml_text_ok :: "pystr \<Rightarrow> bool"
  xml_write :: "string \<Rightarrow> trans_unit list \<Rightarrow> string option"
  service :: "pystr list \<Rightarrow> pystr \<Rightarrow> pystr + pystr"

text \<open>
  Reading in text mode (\<open>open(path, 'r', encoding='utf-8')\<close>, so \<open>newline=None\<close>): the
  decoded text with \<open>\r\n\<close> and \<open>\r\<close> turned into \<open>\n\<close>.
\<close>

fun universal_newlines :: "pystr \<Rightarrow> pystr" where
  "universal_newlines [] = []"
| "universal_newlines [c] = [if c = 13 then 10 else c]"
| "universal_newlines (c # d # cs) =
     (if c = 13 \<and> d = 10 then 10 # universal_newlines cs
      else if c = 13 then 10 # universal_newlines (d # cs)
      else c # universal_newlines (d # cs))"

definition read_text :: "env \<Rightarrow> state \<Rightarrow> string \<Rightarrow> pystr option" where
  "read_text e st path =
     (case files st path of
        None \<Rightarrow> None
      | Some bytes \<Rightarrow> map_option universal_newlines (utf8_decode e bytes))"

text \<open>
  Writing in text mode (\<open>open(path, 'w', encoding='utf-8')\<close>): every \<open>\n\<close> becomes
  \<open>os.linesep\<close>, and the file holds the encoded text.
\<close>

definition write_text :: "env \<Rightarrow> string \<Rightarrow> pystr \<Rightarrow> state \<Rightarrow> state" where
  "write_text e path content st =
     st\<lparr>files := (files st)
          (path \<mapsto> utf8_encode e (concat (map (\<lambda>c. if c = 10 then linesep e else [c]) content)))\<rparr>"

text \<open>\<open>sub in s\<close> for strings.\<close>

fun contains :: "pystr \<Rightarrow> pystr \<Rightarrow> bool" where
  "contains sub [] = (sub = [])"
| "contains sub (c # cs) = (prefix sub (c # cs) \<or> contains sub cs)"

section \<open>XLIFFTranslator.process_xliff_file\<close>

text \<open>The local variables of the loop over the units.\<close>

record progress =
  translated_count :: nat
  error_count :: nat
  modified :: bool

text \<open>
  The chain of \<open>if\<close>/\<open>elif\<close> that sets \<open>needs_translation\<close> for a unit with the source
  text \<open>source_text\<close>: \<open>Some True\<close> and \<open>Some False\<close> are the values of the flag, \<open>None\<close> is
  the \<open>continue\<close> of the last branch.
\<close>

definition needs_translation :: "bool \<Rightarrow> pystr \<Rightarrow> target_element option \<Rightarrow> bool option" where
  "needs_translation only_missing source_text target =
     (case target of
        None \<Rightarrow> Some True
      | Some t \<Rightarrow>
          if (case target_text t of None \<Rightarrow> True | Some x \<Rightarrow> x = [] \<or> strip x = [])
          then Some True
          else if target_state t = Some (py ''needs-review-l10n'') then Some True
          else if only_missing \<and>
                  (case target_text t of
                     None \<Rightarrow> False
                   | Some x \<Rightarrow> x \<noteq> [] \<and> strip x = strip source_text)
          then Some True
          else if only_missing then None
          else Some False)"

text \<open>
  The block under \<open>if needs_translation:\<close>, for the unit's target element \<open>target\<close> (the
  one found, or the one just created).  \<open>if error:\<close> tests a message that is never the
  empty string.  The pause after every tenth unit changes nothing here.

  The assignment \<open>target.text = translated_text\<close> stands outside every \<open>try\<close> but the
  outermost of \<open>process_xliff_file\<close>: when the XML library refuses the text, the loop is
  left with the exception, and the result is \<open>Inl\<close> the state at that moment, in which
  the request and the error of this unit are already recorded.  A dry run does not
  assign.
\<close>

definition translate_unit ::
  "env \<Rightarrow> bool \<Rightarrow> string \<Rightarrow> bool \<Rightarrow> pystr \<Rightarrow> target_element \<Rightarrow> progress \<times> state \<Rightarrow>
     state + (progress \<times> state) \<times> target_element"
where
  "translate_unit e fail_on_placeholder_mismatch xliff_path dry_run source_text target ps =
     (let p = fst ps; st = snd ps;
          result = translate_text fail_on_placeholder_mismatch (service e (requests st)) source_text;
          st1 = st\<lparr>requests := requests st @ (case request result of None \<Rightarrow> [] | Some r \<Rightarrow> [r]),
                    printed := printed st @ (case warning result of None \<Rightarrow> [] | Some w \<Rightarrow> [WARNING w])\<rparr>;
          p1 = (case returned_error result of None \<Rightarrow> p
                | Some error \<Rightarrow> p\<lparr>error_count := error_count p + 1\<rparr>);
          st2 = (case returned_error result of None \<Rightarrow> st1
                 | Some error \<Rightarrow>
                     st1\<lparr>errors := errors st1 @
                       [\<lparr>error_file = path_name e xliff_path, error_text = take 50 source_text,
                         error_message = error\<rparr>]\<rparr>)
      in if dry_run
         then Inr ((p1\<lparr>translated_count := translated_count p1 + 1\<rparr>, st2), target)
         else if \<not> xml_text_ok e (returned_text result) then Inl st2
         else Inr ((p1\<lparr>modified := True, translated_count := translated_count p1 + 1\<rparr>, st2),
                   target\<lparr>target_text := Some (returned_text result),
                          target_state := Some (py ''translated'')\<rparr>))"

text \<open>
  The body of the loop for one unit: the loop variables and the state after it, and the
  unit as it is left in the tree; or \<open>Inl\<close> the state when the assignment raises.  A
  missing target element is created before the flag is tested, in a dry run too.
\<close>

definition process_unit ::
  "env \<Rightarrow> bool \<Rightarrow> string \<Rightarrow> bool \<Rightarrow> bool \<Rightarrow> progress \<times> state \<Rightarrow> trans_unit \<Rightarrow>
     state + (progress \<times> state) \<times> trans_unit"
where
  "process_unit e fail_on_placeholder_mismatch xliff_path dry_run only_missing ps unit =
     (case unit_source unit of
        None \<Rightarrow> Inr (ps, unit)
      | Some None \<Rightarrow> Inr (ps, unit)
      | Some (Some source_text) \<Rightarrow>
          if strip source_text = [] then Inr (ps, unit)
          else
            let target = (case unit_target unit of
                            None \<Rightarrow> \<lparr>target_text = None, target_state = None\<rparr>
                          | Some t \<Rightarrow> t)
            in (case needs_translation only_missing source_text (unit_target unit) of
                  None \<Rightarrow> Inr (ps, unit)
                | Some False \<Rightarrow> Inr (ps, unit\<lparr>unit_target := Some target\<rparr>)
                | Some True \<Rightarrow>
                    (case translate_unit e fail_on_placeholder_mismatch xliff_path dry_run
                            source_text target ps of
                       Inl raised \<Rightarrow> Inl raised
                     | Inr r \<Rightarrow> Inr (fst r, unit\<lparr>unit_target := Some (snd r)\<rparr>))))"

text \<open>The loop: it stops at the first unit whose assignment raises.\<close>

fun process_units ::
  "env \<Rightarrow> bool \<Rightarrow> string \<Rightarrow> bool \<Rightarrow> bool \<Rightarrow> progress \<times> state \<Rightarrow> trans_unit list \<Rightarrow>
     state + (progress \<times> state) \<times> trans_unit list"
where
  "process_units e fail_on_placeholder_mismatch xliff_path dry_run only_missing ps [] =
     Inr (ps, [])"
| "process_units e fail_on_placeholder_mismatch xliff_path dry_run only_missing ps (unit # units) =
     (case process_unit e fail_on_placeholder_mismatch xliff_path dry_run only_missing ps unit of
        Inl raised \<Rightarrow> Inl raised
      | Inr r \<Rightarrow>
          (case process_units e fail_on_placeholder_mismatch xliff_path dry_run only_missing
                  (fst r) units of
             Inl raised \<Rightarrow> Inl raised
           | Inr rs \<Rightarrow> Inr (fst rs, snd r # snd rs)))"

text \<open>
  The outer \<open>except\<close> of \<open>process_xliff_file\<close> once \<open>original_content\<close> is read: it prints
  the error line, writes \<open>original_content\<close> back in text mode, and returns \<open>(0, 1)\<close>.  It
  does not look at \<open>dry_run\<close>.
\<close>

definition outer_handler :: "env \<Rightarrow> string \<Rightarrow> pystr \<Rightarrow> state \<Rightarrow> (nat \<times> nat) \<times> state" where
  "outer_handler e xliff_path original_content st =
     ((0, 1),
      write_text e xliff_path original_content
        (st\<lparr>printed := printed st @ [ERROR_processing (path_name e xliff_path)]\<rparr>))"

text \<open>
  \<open>process_xliff_file\<close>: the pair it returns and the state it leaves.  Every \<open>except\<close> of
  the source is a branch:
  \<^item> the first read raises (no file, or bytes that are not UTF-8): the outer handler
    finds no \<open>original_content\<close>, so it prints, writes nothing and returns \<open>(0, 1)\<close>;
  \<^item> the parser raises, the assignment of a target text raises, or \<open>tree.write\<close> raises:
    the outer handler as above;
  \<^item> the file read back after \<open>tree.write\<close> cannot be decoded, or has no \<open><?xml\<close> in
    its first hundred characters: \<open>original_content\<close> is written back and the result is
    \<open>(0, translated_count)\<close>.

  Opening the file for writing \<open>original_content\<close> back, and that writing, are taken to
  succeed.
\<close>

definition process_xliff_file ::
  "env \<Rightarrow> bool \<Rightarrow> string \<Rightarrow> bool \<Rightarrow> bool \<Rightarrow> state \<Rightarrow> (nat \<times> nat) \<times> state"
where
  "process_xliff_file e fail_on_placeholder_mismatch xliff_path dry_run only_missing st =
     (case read_text e st xliff_path of
        None \<Rightarrow>
          ((0, 1), st\<lparr>printed := printed st @ [ERROR_processing (path_name e xliff_path)]\<rparr>)
      | Some original_content \<Rightarrow>
          (case Option.bind (files st xliff_path) (xml_parse e) of
             None \<Rightarrow> outer_handler e xliff_path original_content st
           | Some trans_units \<Rightarrow>
               (case process_units e fail_on_placeholder_mismatch xliff_path dry_run only_missing
                       (\<lparr>translated_count = 0, error_count = 0, modified = False\<rparr>, st)
                       trans_units of
                  Inl raised \<Rightarrow> outer_handler e xliff_path original_content raised
                | Inr r \<Rightarrow>
                    let p = fst (fst r); st1 = snd (fst r)
                    in if \<not> dry_run \<and> modified p then
                         (case Option.bind (files st xliff_path) (\<lambda>bytes. xml_write e bytes (snd r)) of
                            None \<Rightarrow> outer_handler e xliff_path original_content st1
                          | Some written \<Rightarrow>
                              let st2 = st1\<lparr>files := (files st1)(xliff_path \<mapsto> written)\<rparr>
                              in (case read_text e st2 xliff_path of
                                    None \<Rightarrow>
                                      ((0, translated_count p),
                                       write_text e xliff_path original_content st2)
                                  | Some test_content \<Rightarrow>
                                      if \<not> contains (py ''<?xml'') (take 100 test_content)
                                      then ((0, translated_count p),
                                            write_text e xliff_path original_content st2)
                                      else ((translated_count p, error_count p), st2)))
                       else ((translated_count p, error_count p), st1))))"

section \<open>Notions used in the statements\<close>

text \<open>
  A unit reaches the block under \<open>if needs_translation:\<close> when its source has text that
  is not blank and the flag comes out true.
\<close>

definition translation_needed :: "bool \<Rightarrow> trans_unit \<Rightarrow> bool" where
  "translation_needed only_missing unit =
     (case unit_source unit of
        Some (Some source_text) \<Rightarrow>
          strip source_text \<noteq> [] \<and>
          needs_translation only_missing source_text (unit_target unit) = Some True
      | _ \<Rightarrow> False)"



text \<open>
  The state in which the loop, or one pass of it, ends: the state it returns, or the
  state at the moment it raises.
\<close>

definition final_state :: "state + (progress \<times> state) \<times> 'a \<Rightarrow> state" where
  "final_state outcome = (case outcome of Inl raised \<Rightarrow> raised | Inr r \<Rightarrow> snd (fst r))"

text \<open>Whether a message of \<open>validate\<close> lists a given placeholder.\<close>

fun names_placeholder :: "validation_error \<Rightarrow> pystr \<Rightarrow> bool" where
  "names_placeholder (CountMismatch n m) p = False"
| "names_placeholder (MissingPlaceholders ps) p = (p \<in> ps)"
| "names_placeholder (ExtraPlaceholders ps) p = (p \<in> ps)"

section \<open>Concrete files, units and environments\<close>

text \<open>
  An XLIFF document with one unit, whose source is \<open>Hello\<close> and which has no target: its
  declaration, its body, and the file with the line ending \<open>\r\n\<close> and with the line ending
  \<open>\n\<close> between the two.
\<close>

definition xml_declaration :: string where
  "xml_declaration = ''<?xml version='1.0' encoding='UTF-8'?>''"

definition hello_document :: string where
  "hello_document =
     ''<xliff xmlns='urn:oasis:names:tc:xliff:document:1.2'>'' @
     ''<trans-unit><source>Hello</source></trans-unit></xliff>''"

definition crlf_file :: string where
  "crlf_file = xml_declaration @ [CHR 0x0D, CHR 0x0A] @ hello_document"

definition lf_file :: string where
  "lf_file = xml_declaration @ [CHR 0x0A] @ hello_document"

definition hello_unit :: trans_unit where
  "hello_unit = \<lparr>unit_source = Some (Some (py ''Hello'')), unit_target = None\<rparr>"

text \<open>A file that no XML parser takes: the root element is not closed.\<close>

definition broken_crlf_file :: string where
  "broken_crlf_file = xml_declaration @ [CHR 0x0D, CHR 0x0A] @ ''<xliff>''"

definition broken_lf_file :: string where
  "broken_lf_file = xml_declaration @ [CHR 0x0A] @ ''<xliff>''"

text \<open>
  A document with one unit whose source and target are both the unit literal \<open>kg\<close>, the
  target in the state \<open>translated\<close>.
\<close>

definition kg_file :: string where
  "kg_file =
     xml_declaration @ [CHR 0x0A] @
     ''<xliff xmlns='urn:oasis:names:tc:xliff:document:1.2'>'' @
     ''<trans-unit><source>kg</source><target state='translated'>kg</target></trans-unit></xliff>''"

definition kg_unit :: trans_unit where
  "kg_unit =
     \<lparr>unit_source = Some (Some (py ''kg'')),
      unit_target = Some \<lparr>target_text = Some (py ''kg''), target_state = Some (py ''translated'')\<rparr>\<rparr>"

text \<open>
  An environment for concrete runs.  The files are ASCII, where UTF-8 is the identity;
  the line separator is \<open>\n\<close>; the name of a path is what follows its last \<open>/\<close>; the parser
  knows the files above; the XML library refuses the control characters below U+0020
  other than tab, line feed and carriage return; the file is found empty after
  \<open>tree.write\<close>; the service answers \<open>Bonjour\<close>.
\<close>

definition ascii_decode :: "string \<Rightarrow> pystr option" where
  "ascii_decode bytes =
     (if list_all (\<lambda>b. (of_char b :: nat) < 128) bytes then Some (map of_char bytes) else None)"

definition ascii_encode :: "pystr \<Rightarrow> string" where
  "ascii_encode s = map char_of s"

definition last_component :: "string \<Rightarrow> string" where
  "last_component path = rev (takeWhile (\<lambda>c. c \<noteq> CHR ''/'') (rev path))"

definition parse_known_files :: "string \<Rightarrow> trans_unit list option" where
  "parse_known_files bytes =
     (if bytes = crlf_file \<or> bytes = lf_file then Some [hello_unit]
      else if bytes = kg_file then Some [kg_unit]
      else None)"

definition no_control_characters :: "pystr \<Rightarrow> bool" where
  "no_control_characters s = list_all (\<lambda>c. c = 9 \<or> c = 10 \<or> c = 13 \<or> 32 \<le> c) s"

definition example_env :: env where
  "example_env =
     \<lparr>utf8_decode = ascii_decode, utf8_encode = ascii_encode, linesep = [10],
      path_name = last_component,
      xml_parse = parse_known_files,
      xml_text_ok = no_control_characters,
      xml_write = (\<lambda>bytes units. Some []),
      service = (\<lambda>earlier text. Inr (py ''Bonjour''))\<rparr>"

text \<open>
  The same environment with a service whose answer ends in the control character
  U+0007, which the XML library refuses.
\<close>

definition control_env :: env where
  "control_env = example_env\<lparr>service := (\<lambda>earlier text. Inr (py ''Bonjour'' @ [7]))\<rparr>"

text \<open>The states that hold one of the files at the path \<open>fr.xcloc/fr.xliff\<close>.\<close>

definition state_with :: "string \<Rightarrow> state" where
  "state_with bytes =
     \<lparr>files = (\<lambda>path. None)(''fr.xcloc/fr.xliff'' \<mapsto> bytes), errors = [], requests = [],
      printed = []\<rparr>"

text \<open>
  Three units with the source \<open>Hello\<close>: one whose target differs and is flagged for
  review, one whose target is a copy of the source, one that is translated.
\<close>

definition reviewed_unit :: trans_unit where
  "reviewed_unit =
     \<lparr>unit_source = Some (Some (py ''Hello'')),
      unit_target = Some \<lparr>target_text = Some (py ''Hallo''),
                          target_state = Some (py ''needs-review-l10n'')\<rparr>\<rparr>"

definition copied_unit :: trans_unit where
  "copied_unit =
     \<lparr>unit_source = Some (Some (py ''Hello'')),
      unit_target = Some \<lparr>target_text = Some (py ''Hello''), target_state = None\<rparr>\<rparr>"

definition translated_unit :: trans_unit where
  "translated_unit =
     \<lparr>unit_source = Some (Some (py ''Hello'')),
      unit_target = Some \<lparr>target_text = Some (py ''Hallo''), target_state = Some (py ''translated'')\<rparr>\<rparr>"

text \<open>The source text of the scenarios, and the text that is handed to the service for it.\<close>

definition scenario_source :: pystr where
  "scenario_source = py ''You drank %lld ml today''"

definition scenario_request :: pystr where
  "scenario_request = py ''You drank __PH0__ ml today''"

section \<open>Notions used in the proof of the round trip\<close>

text \<open>
  The core of a marker is \<open>PH\<close> followed by a decimal digit of \<open>str(i)\<close>; the predicate says
  that a text holds such a core somewhere.
\<close>

fun has_marker_core :: "pystr \<Rightarrow> bool" where
  "has_marker_core (a # b # c # s) =
     ((a = of_char CHR ''P'' \<and> b = of_char CHR ''H'' \<and> 48 \<le> c \<and> c \<le> 57) \<or>
      has_marker_core (b # c # s))"
| "has_marker_core s = False"

text \<open>The texts that the six alternatives of the pattern match, one rule for each.\<close>

inductive placeholder_shape :: "pystr \<Rightarrow> bool" where
  printf: "fs \<noteq> [] \<Longrightarrow> list_all is_fmt fs \<Longrightarrow> placeholder_shape (of_char CHR ''%'' # fs)"
| positional:
    "ds \<noteq> [] \<Longrightarrow> list_all is_decimal ds \<Longrightarrow> fs \<noteq> [] \<Longrightarrow> list_all is_fmt fs \<Longrightarrow>
     placeholder_shape (of_char CHR ''%'' # ds @ of_char CHR ''$'' # fs)"
| variable:
    "list_all (\<lambda>x. x \<noteq> of_char CHR '')'' \<and> x \<noteq> 10) body \<Longrightarrow>
     placeholder_shape (of_char CHR ''$'' # of_char CHR ''('' # body @ [of_char CHR '')''])"
| brace:
    "ds \<noteq> [] \<Longrightarrow> list_all is_decimal ds \<Longrightarrow>
     placeholder_shape (of_char CHR ''{'' # ds @ [of_char CHR ''}''])"
| temperature:
    "c = of_char CHR ''C'' \<or> c = of_char CHR ''F'' \<Longrightarrow> placeholder_shape [194, 176, c]"
| symbol: "placeholder_shape [240, 376, 8217, 167]"

text \<open>
  The text in which every match of the pattern is replaced, where it stands, by the
  marker of its index, the indices starting at \<open>i\<close>; and the list of the markers with the
  matches they stand for.
\<close>

fun mark_from :: "nat \<Rightarrow> pystr \<Rightarrow> pystr" where
  "mark_from i [] = []"
| "mark_from i (c # cs) =
     (case match_at (c # cs) of
        None \<Rightarrow> c # mark_from i cs
      | Some n \<Rightarrow> marker i @ mark_from (Suc i) (drop (n - 1) cs))"

fun markers_from :: "nat \<Rightarrow> pystr list \<Rightarrow> (pystr \<times> pystr) list" where
  "markers_from i [] = []"
| "markers_from i (p # ps) = (marker i, p) # markers_from (Suc i) ps"

text \<open>
  No placeholder without a marker core occurs in \<open>pre @ rest\<close> at a position inside
  \<open>pre\<close>.
\<close>

definition clear_before :: "pystr \<Rightarrow> pystr \<Rightarrow> bool" where
  "clear_before pre rest \<longleftrightarrow>
     (\<forall>a b q. pre = a @ b \<and> b \<noteq> [] \<and> placeholder_shape q \<and> \<not> has_marker_core q \<longrightarrow>
        \<not> prefix q (b @ rest))"

section \<open>Evaluation of concrete runs\<close>

text \<open>
  The definitions that the simplifier unfolds to run the pattern, the skip policy and
  \<open>translate_text\<close> on a concrete text.
\<close>

lemmas pattern_defs =
  match_at_def alt_printf_def alt_positional_def alt_variable_def alt_brace_def
  alt_temperature_def alt_symbol_def is_fmt_def is_decimal_def decimal_blocks_def

lemmas skip_defs =
  should_skip_translation_def strip_def is_space_def UNITS_def PUNCTUATION_def

lemmas translate_defs =
  translate_text_def extract_placeholders_def marker_def str_of_nat.simps validate_def
  validator_extract_placeholders_def Let_def

text \<open>
  The guard \<open>if placeholders:\<close> around the call of \<open>restore_placeholders\<close> changes nothing:
  with no placeholders the loop of \<open>restore_placeholders\<close> does not run.
\<close>

lemma restore_placeholders_if:
  "(if placeholders \<noteq> [] then restore_placeholders answer placeholders else answer) =
     restore_placeholders answer placeholders"
  by (cases placeholders) simp_all

text \<open>
  The source of the scenarios: it is not skipped, its only placeholder is \<open>%lld\<close>, and
  the text handed to the service still holds the literal \<open>ml\<close>.
\<close>

lemma scenario_skip: "\<not> should_skip_translation scenario_source"
  by (simp add: scenario_source_def skip_defs pattern_defs)

lemma scenario_extract:
  "extract_placeholders scenario_source = (scenario_request, [(py ''__PH0__'', py ''%lld'')])"
  by (simp add: scenario_source_def scenario_request_def extract_placeholders_def pattern_defs
        marker_def str_of_nat.simps)

lemma scenario_request_not_blank: "strip scenario_request \<noteq> []"
  by (simp add: scenario_request_def strip_def is_space_def)

lemma scenario_placeholders: "finditer scenario_source = [py ''%lld'']"
  by (simp add: scenario_source_def pattern_defs)

text \<open>
  The definitions that the simplifier unfolds to run \<open>process_xliff_file\<close> in the concrete
  environment, and those of the concrete files and units.
\<close>

lemmas run_defs =
  process_xliff_file_def outer_handler_def process_unit_def translate_unit_def
  needs_translation_def read_text_def write_text_def example_env_def state_with_def
  parse_known_files_def no_control_characters_def last_component_def
  ascii_decode_def ascii_encode_def

lemmas file_defs =
  crlf_file_def lf_file_def broken_crlf_file_def broken_lf_file_def kg_file_def
  xml_declaration_def hello_document_def hello_unit_def kg_unit_def

section \<open>The loop over the units\<close>

text \<open>
  What one pass of the loop body, and then the whole loop, does to the files, to the
  counter of translated units, to the flag \<open>modified\<close> and to the targets.  A dry run
  never raises.
\<close>

lemma translate_unit_files:
  "files (final_state (translate_unit e f n d s t ps)) = files (snd ps)"
  by (simp add: translate_unit_def final_state_def Let_def split: option.splits)

lemma translate_unit_count:
  "translate_unit e f n d s t ps = Inr r \<Longrightarrow>
     translated_count (fst (fst r)) = translated_count (fst ps) + 1"
  by (auto simp: translate_unit_def Let_def split: option.splits if_splits)

lemma translate_unit_returns:
  "d \<or> xml_text_ok e (returned_text (translate_text f (service e (requests (snd ps))) s)) \<Longrightarrow>
     \<exists>r. translate_unit e f n d s t ps = Inr r"
  by (auto simp: translate_unit_def Let_def)


lemma final_state_case:
  "final_state (case outcome of Inl raised \<Rightarrow> Inl raised | Inr r \<Rightarrow> Inr (fst r, g r)) =
     final_state outcome"
  by (cases outcome) (simp_all add: final_state_def)

lemma final_state_Inr: "final_state (Inr r) = snd (fst r)"
  by (simp add: final_state_def)

lemma process_unit_files:
  "files (final_state (process_unit e f n d om ps u)) = files (snd ps)"
  by (simp add: process_unit_def Let_def final_state_case final_state_Inr translate_unit_files
        split: option.splits bool.splits)

lemma process_unit_count:
  "process_unit e f n d om ps u = Inr r \<Longrightarrow>
     translated_count (fst (fst r)) =
       translated_count (fst ps) + (if translation_needed om u then 1 else 0)"
  by (auto simp: process_unit_def translation_needed_def Let_def
           dest: translate_unit_count split: option.splits bool.splits if_splits sum.splits)


lemma process_units_files:
  "files (final_state (process_units e f n d om ps us)) = files (snd ps)"
proof (induction us arbitrary: ps)
  case Nil
  show ?case by (simp add: final_state_def)
next
  case (Cons u us)
  show ?case
  proof (cases "process_unit e f n d om ps u")
    case (Inl raised)
    with process_unit_files [of e f n d om ps u] show ?thesis
      by (simp add: final_state_def)
  next
    case (Inr r)
    with process_unit_files [of e f n d om ps u] have "files (snd (fst r)) = files (snd ps)"
      by (simp add: final_state_def)
    with Cons [of "fst r"] Inr show ?thesis
      by (auto simp: final_state_def split: sum.splits)
  qed
qed

lemma process_units_count:
  "process_units e f n d om ps us = Inr r \<Longrightarrow>
     translated_count (fst (fst r)) =
       translated_count (fst ps) + length (filter (translation_needed om) us)"
proof (induction us arbitrary: ps r)
  case Nil
  then show ?case by auto
next
  case (Cons u us)
  from Cons.prems obtain r1 rs where
    r1: "process_unit e f n d om ps u = Inr r1"
    and rs: "process_units e f n d om (fst r1) us = Inr rs"
    and r: "r = (fst rs, snd r1 # snd rs)"
    by (auto split: sum.splits)
  from Cons.IH [OF rs] process_unit_count [OF r1] r show ?case
    by simp
qed


lemma process_units_append:
  "process_units e f n d om ps (us @ vs) =
     (case process_units e f n d om ps us of
        Inl raised \<Rightarrow> Inl raised
      | Inr r \<Rightarrow>
          (case process_units e f n d om (fst r) vs of
             Inl raised \<Rightarrow> Inl raised
           | Inr rs \<Rightarrow> Inr (fst rs, snd r @ snd rs)))"
  by (induction us arbitrary: ps) (simp_all split: sum.splits)

lemma process_units_length:
  "process_units e f n d om ps us = Inr r \<Longrightarrow> length (snd r) = length us"
  by (induction us arbitrary: ps r) (auto split: sum.splits)

section \<open>Round trip of the placeholders\<close>

subsection \<open>The shape of a match\<close>

lemma first_match_Some: "first_match rs = Some n \<Longrightarrow> Some n \<in> set rs"
  by (induction rs rule: first_match.induct) auto

lemma first_match_None: "first_match rs = None \<Longrightarrow> r \<in> set rs \<Longrightarrow> r = None"
  by (induction rs rule: first_match.induct) auto

lemma not_decimal_dollar: "\<not> is_decimal 36"
  by (simp add: is_decimal_def decimal_blocks_def)

lemma not_decimal_brace: "\<not> is_decimal 125"
  by (simp add: is_decimal_def decimal_blocks_def)

lemma takeWhile_all: "list_all P (takeWhile P xs)"
  by (induction xs) auto

lemma takeWhile_prefix_all: "list_all P xs \<Longrightarrow> takeWhile P (xs @ ys) = xs @ takeWhile P ys"
  by (induction xs) auto

lemma dropWhile_prefix_all: "list_all P xs \<Longrightarrow> dropWhile P (xs @ ys) = dropWhile P ys"
  by (induction xs) auto

lemma alt_printf_shape:
  assumes "alt_printf s = Some n"
  shows "n \<le> length s \<and> placeholder_shape (take n s)"
proof (cases s)
  case Nil
  with assms show ?thesis by (simp add: alt_printf_def)
next
  case (Cons c r)
  with assms have c: "c = 37" and ne: "takeWhile is_fmt r \<noteq> []"
    and n: "n = Suc (length (takeWhile is_fmt r))"
    by (simp_all add: alt_printf_def split: if_splits)
  have len: "length (takeWhile is_fmt r) \<le> length r"
    by (rule length_takeWhile_le)
  have "take n s = 37 # takeWhile is_fmt r"
    using Cons c n takeWhile_eq_take [of is_fmt r] by simp
  moreover have "placeholder_shape (37 # takeWhile is_fmt r)"
    using placeholder_shape.printf [OF ne takeWhile_all] by simp
  ultimately show ?thesis using Cons n len by simp
qed

lemma alt_positional_shape:
  assumes "alt_positional s = Some n"
  shows "n \<le> length s \<and> placeholder_shape (take n s)"
proof (cases s)
  case Nil
  with assms show ?thesis by (simp add: alt_positional_def)
next
  case (Cons c r)
  let ?ds = "takeWhile is_decimal r"
  from assms Cons have c: "c = 37" and ds: "?ds \<noteq> []"
    by (simp_all add: alt_positional_def split: if_splits)
  from assms Cons c ds obtain d r' where dr: "dropWhile is_decimal r = d # r'"
    by (cases "dropWhile is_decimal r") (simp_all add: alt_positional_def)
  let ?fs = "takeWhile is_fmt r'"
  from assms Cons c ds dr have d: "d = 36" and fs: "?fs \<noteq> []"
    and n: "n = 2 + length ?ds + length ?fs"
    by (simp_all add: alt_positional_def split: if_splits)
  have r: "r = ?ds @ 36 # r'"
    using takeWhile_dropWhile_id [of is_decimal r] dr d by simp
  have r': "r' = ?fs @ dropWhile is_fmt r'"
    by simp
  have s: "s = (37 # ?ds @ 36 # ?fs) @ dropWhile is_fmt r'"
    using Cons c r r' by (metis append_Cons append_assoc)
  have len: "length (37 # ?ds @ 36 # ?fs) = n"
    using n by simp
  have "take n s = 37 # ?ds @ 36 # ?fs"
    using s len by (metis append_eq_conv_conj)
  moreover have "placeholder_shape (37 # ?ds @ 36 # ?fs)"
    using placeholder_shape.positional [OF ds takeWhile_all fs takeWhile_all] by simp
  moreover have "n \<le> length s"
    using s len by (metis length_append le_add1)
  ultimately show ?thesis by simp
qed

lemma alt_variable_shape:
  assumes "alt_variable s = Some n"
  shows "n \<le> length s \<and> placeholder_shape (take n s)"
proof -
  let ?P = "\<lambda>x::nat. x \<noteq> 41 \<and> x \<noteq> 10"
  from assms obtain r where s0: "s = 36 # 40 # r"
    by (cases s; cases "tl s") (simp_all add: alt_variable_def split: if_splits)
  let ?body = "takeWhile ?P r"
  from assms s0 obtain e r' where dr: "dropWhile ?P r = e # r'"
    by (cases "dropWhile ?P r") (simp_all add: alt_variable_def)
  from assms s0 dr have e: "e = 41" and n: "n = 3 + length ?body"
    by (simp_all add: alt_variable_def split: if_splits)
  have r: "r = ?body @ 41 # r'"
    using takeWhile_dropWhile_id [of ?P r] dr e by simp
  have s: "s = (36 # 40 # ?body @ [41]) @ r'"
    using s0 r by (metis append_Cons append_Nil append_assoc)
  have len: "length (36 # 40 # ?body @ [41]) = n"
    using n by simp
  have "take n s = 36 # 40 # ?body @ [41]"
    using s len by (metis append_eq_conv_conj)
  moreover have "placeholder_shape (36 # 40 # ?body @ [41])"
    using placeholder_shape.variable [of ?body] takeWhile_all [of ?P r] by simp
  moreover have "n \<le> length s"
    using s len by (metis length_append le_add1)
  ultimately show ?thesis by simp
qed

lemma alt_brace_shape:
  assumes "alt_brace s = Some n"
  shows "n \<le> length s \<and> placeholder_shape (take n s)"
proof (cases s)
  case Nil
  with assms show ?thesis by (simp add: alt_brace_def)
next
  case (Cons c r)
  let ?ds = "takeWhile is_decimal r"
  from assms Cons have c: "c = 123" and ds: "?ds \<noteq> []"
    by (simp_all add: alt_brace_def split: if_splits)
  from assms Cons c ds obtain d r' where dr: "dropWhile is_decimal r = d # r'"
    by (cases "dropWhile is_decimal r") (simp_all add: alt_brace_def)
  from assms Cons c ds dr have d: "d = 125" and n: "n = 2 + length ?ds"
    by (simp_all add: alt_brace_def split: if_splits)
  have r: "r = ?ds @ 125 # r'"
    using takeWhile_dropWhile_id [of is_decimal r] dr d by simp
  have s: "s = (123 # ?ds @ [125]) @ r'"
    using Cons c r by (metis append_Cons append_Nil append_assoc)
  have len: "length (123 # ?ds @ [125]) = n"
    using n by simp
  have "take n s = 123 # ?ds @ [125]"
    using s len by (metis append_eq_conv_conj)
  moreover have "placeholder_shape (123 # ?ds @ [125])"
    using placeholder_shape.brace [OF ds takeWhile_all] by simp
  moreover have "n \<le> length s"
    using s len by (metis length_append le_add1)
  ultimately show ?thesis by simp
qed

lemma alt_temperature_shape:
  assumes "alt_temperature s = Some n"
  shows "n \<le> length s \<and> placeholder_shape (take n s)"
proof -
  from assms obtain c r where s: "s = 194 # 176 # c # r" and c: "c = 67 \<or> c = 70" and n: "n = 3"
    by (cases s; cases "tl s"; cases "tl (tl s)")
       (auto simp: alt_temperature_def split: if_splits)
  have "placeholder_shape [194, 176, c]"
    using placeholder_shape.temperature [of c] c by simp
  then show ?thesis using s n by simp
qed

lemma alt_symbol_shape:
  assumes "alt_symbol s = Some n"
  shows "n \<le> length s \<and> placeholder_shape (take n s)"
proof -
  from assms have p: "prefix [240, 376, 8217, 167] s" and n: "n = 4"
    by (simp_all add: alt_symbol_def split: if_splits)
  from p obtain r where "s = [240, 376, 8217, 167] @ r"
    by (auto simp: prefix_def)
  then show ?thesis using n placeholder_shape.symbol by simp
qed

lemma match_at_shape:
  assumes "match_at s = Some n"
  shows "n \<le> length s \<and> placeholder_shape (take n s)"
proof -
  from assms have "Some n \<in> set [alt_printf s, alt_positional s, alt_variable s, alt_brace s,
                                  alt_temperature s, alt_symbol s]"
    unfolding match_at_def by (rule first_match_Some)
  then show ?thesis
    using alt_printf_shape alt_positional_shape alt_variable_shape alt_brace_shape
      alt_temperature_shape alt_symbol_shape
    by auto
qed

lemma match_at_None_all:
  assumes "match_at s = None"
  shows "alt_printf s = None \<and> alt_positional s = None \<and> alt_variable s = None \<and>
         alt_brace s = None \<and> alt_temperature s = None \<and> alt_symbol s = None"
proof -
  from assms have "\<And>r. r \<in> set [alt_printf s, alt_positional s, alt_variable s, alt_brace s,
                                  alt_temperature s, alt_symbol s] \<Longrightarrow> r = None"
    unfolding match_at_def by (rule first_match_None)
  then show ?thesis by simp
qed

lemma match_at_not_None:
  shows "alt_printf s \<noteq> None \<Longrightarrow> match_at s \<noteq> None"
    and "alt_positional s \<noteq> None \<Longrightarrow> match_at s \<noteq> None"
    and "alt_variable s \<noteq> None \<Longrightarrow> match_at s \<noteq> None"
    and "alt_brace s \<noteq> None \<Longrightarrow> match_at s \<noteq> None"
    and "alt_temperature s \<noteq> None \<Longrightarrow> match_at s \<noteq> None"
    and "alt_symbol s \<noteq> None \<Longrightarrow> match_at s \<noteq> None"
proof -
  note all = match_at_None_all [of s]
  show "alt_printf s \<noteq> None \<Longrightarrow> match_at s \<noteq> None"
    using all by (cases "match_at s") simp_all
  show "alt_positional s \<noteq> None \<Longrightarrow> match_at s \<noteq> None"
    using all by (cases "match_at s") simp_all
  show "alt_variable s \<noteq> None \<Longrightarrow> match_at s \<noteq> None"
    using all by (cases "match_at s") simp_all
  show "alt_brace s \<noteq> None \<Longrightarrow> match_at s \<noteq> None"
    using all by (cases "match_at s") simp_all
  show "alt_temperature s \<noteq> None \<Longrightarrow> match_at s \<noteq> None"
    using all by (cases "match_at s") simp_all
  show "alt_symbol s \<noteq> None \<Longrightarrow> match_at s \<noteq> None"
    using all by (cases "match_at s") simp_all
qed

lemma placeholder_shape_matches:
  assumes "placeholder_shape q"
  shows "match_at (q @ r) \<noteq> None"
  using assms
proof cases
  case (printf fs)
  have tw: "takeWhile is_fmt (fs @ r) \<noteq> []"
    using printf(2,3) by (simp add: takeWhile_prefix_all)
  have "alt_printf (q @ r) \<noteq> None"
    by (simp add: alt_printf_def printf(1) tw)
  then show ?thesis by (rule match_at_not_None(1))
next
  case (positional ds fs)
  have tw: "takeWhile is_decimal (ds @ 36 # fs @ r) = ds"
    using positional(3) by (simp add: takeWhile_prefix_all not_decimal_dollar)
  have dw: "dropWhile is_decimal (ds @ 36 # fs @ r) = 36 # fs @ r"
    using positional(3) by (simp add: dropWhile_prefix_all not_decimal_dollar)
  have fw: "takeWhile is_fmt (fs @ r) \<noteq> []"
    using positional(4,5) by (simp add: takeWhile_prefix_all)
  have "alt_positional (q @ r) \<noteq> None"
    by (simp add: alt_positional_def positional(1,2) tw dw fw)
  then show ?thesis by (rule match_at_not_None(2))
next
  case (variable body)
  have dw: "dropWhile (\<lambda>x. x \<noteq> 41 \<and> x \<noteq> 10) (body @ 41 # r) = 41 # r"
    using variable(2) by (simp add: dropWhile_prefix_all)
  have "alt_variable (q @ r) \<noteq> None"
    by (simp add: alt_variable_def variable(1) dw)
  then show ?thesis by (rule match_at_not_None(3))
next
  case (brace ds)
  have tw: "takeWhile is_decimal (ds @ 125 # r) = ds"
    using brace(3) by (simp add: takeWhile_prefix_all not_decimal_brace)
  have dw: "dropWhile is_decimal (ds @ 125 # r) = 125 # r"
    using brace(3) by (simp add: dropWhile_prefix_all not_decimal_brace)
  have "alt_brace (q @ r) \<noteq> None"
    by (simp add: alt_brace_def brace(1,2) tw dw)
  then show ?thesis by (rule match_at_not_None(4))
next
  case (temperature c)
  then have "alt_temperature (q @ r) \<noteq> None"
    by (auto simp: alt_temperature_def)
  then show ?thesis by (rule match_at_not_None(5))
next
  case symbol
  then have "alt_symbol (q @ r) \<noteq> None"
    by (simp add: alt_symbol_def)
  then show ?thesis by (rule match_at_not_None(6))
qed

lemma placeholder_shape_ends:
  assumes "placeholder_shape q"
  shows "q \<noteq> []" and "hd q \<in> {37, 36, 123, 194, 240}"
    and "last q \<in> {64, 100, 108, 41, 125, 67, 70, 167}"
proof -
  have fmt_last: "last fs \<in> {64, 100, 108}" if "fs \<noteq> []" "list_all is_fmt fs" for fs
  proof -
    from that have "is_fmt (last fs)"
      by (simp add: list_all_iff)
    then show ?thesis by (auto simp: is_fmt_def)
  qed
  show "q \<noteq> []" using assms by cases simp_all
  show "hd q \<in> {37, 36, 123, 194, 240}" using assms by cases simp_all
  show "last q \<in> {64, 100, 108, 41, 125, 67, 70, 167}"
    using assms
  proof cases
    case (printf fs)
    then show ?thesis using fmt_last [of fs] by auto
  next
    case (positional ds fs)
    then show ?thesis using fmt_last [of fs] by auto
  qed auto
qed

lemma str_of_nat_digits: "x \<in> set (str_of_nat n) \<Longrightarrow> 48 \<le> x \<and> x \<le> 57"
proof (induction n arbitrary: x rule: str_of_nat.induct)
  case (1 n)
  show ?case
  proof (cases "n < 10")
    case True
    with "1.prems" show ?thesis by (simp add: str_of_nat.simps [of n])
  next
    case False
    have "n mod 10 < 10" by simp
    with False "1.prems" "1.IH" show ?thesis
      by (auto simp: str_of_nat.simps [of n])
  qed
qed

lemma str_of_nat_not_Nil: "str_of_nat n \<noteq> []"
  by (simp add: str_of_nat.simps [of n])

lemma str_of_nat_value: "foldl (\<lambda>a d. 10 * a + (d - 48)) 0 (str_of_nat n) = n"
proof (induction n rule: str_of_nat.induct)
  case (1 n)
  show ?case
  proof (cases "n < 10")
    case True
    then show ?thesis by (simp add: str_of_nat.simps [of n])
  next
    case False
    with "1.IH" show ?thesis by (simp add: str_of_nat.simps [of n])
  qed
qed

lemma str_of_nat_inject: "str_of_nat a = str_of_nat b \<Longrightarrow> a = b"
  by (metis str_of_nat_value)

lemma marker_unfold: "marker i = 95 # 95 # 80 # 72 # str_of_nat i @ [95, 95]"
  by (simp add: marker_def)

lemma marker_chars: "x \<in> set (marker i) \<Longrightarrow> x = 95 \<or> x = 80 \<or> x = 72 \<or> (48 \<le> x \<and> x \<le> 57)"
  using str_of_nat_digits [of x i] by (auto simp: marker_unfold)

lemma marker_not_Nil: "marker i \<noteq> []"
  by (simp add: marker_unfold)

subsection \<open>Marker cores\<close>

lemma has_marker_core_iff:
  "has_marker_core s \<longleftrightarrow> (\<exists>a d r. s = a @ 80 # 72 # d # r \<and> 48 \<le> d \<and> d \<le> 57)"
proof (induction s rule: has_marker_core.induct)
  case (1 a b c s)
  show ?case
  proof
    assume "has_marker_core (a # b # c # s)"
    then consider "a = 80" "b = 72" "48 \<le> c" "c \<le> 57" | "has_marker_core (b # c # s)"
      by auto
    then show "\<exists>x d r. a # b # c # s = x @ 80 # 72 # d # r \<and> 48 \<le> d \<and> d \<le> 57"
    proof cases
      case 1
      then have "a # b # c # s = [] @ 80 # 72 # c # s" by simp
      with 1 show ?thesis by blast
    next
      case 2
      with "1.IH" obtain x d r where "b # c # s = x @ 80 # 72 # d # r" "48 \<le> d" "d \<le> 57"
        by blast
      then have "a # b # c # s = (a # x) @ 80 # 72 # d # r" by simp
      with \<open>48 \<le> d\<close> \<open>d \<le> 57\<close> show ?thesis by blast
    qed
  next
    assume "\<exists>x d r. a # b # c # s = x @ 80 # 72 # d # r \<and> 48 \<le> d \<and> d \<le> 57"
    then obtain x d r where eq: "a # b # c # s = x @ 80 # 72 # d # r" and d: "48 \<le> d" "d \<le> 57"
      by blast
    show "has_marker_core (a # b # c # s)"
    proof (cases x)
      case Nil
      with eq d show ?thesis by simp
    next
      case (Cons y ys)
      with eq have "b # c # s = ys @ 80 # 72 # d # r" by simp
      with d "1.IH" have "has_marker_core (b # c # s)" by blast
      then show ?thesis by simp
    qed
  qed
qed (auto simp: Cons_eq_append_conv)

lemma has_marker_core_append:
  "has_marker_core a \<Longrightarrow> has_marker_core (x @ a @ y)"
proof -
  assume "has_marker_core a"
  then obtain u d r where "a = u @ 80 # 72 # d # r" "48 \<le> d" "d \<le> 57"
    unfolding has_marker_core_iff by blast
  then have "x @ a @ y = (x @ u) @ 80 # 72 # d # (r @ y) \<and> 48 \<le> d \<and> d \<le> 57"
    by simp
  then show ?thesis
    unfolding has_marker_core_iff by blast
qed

lemma no_core_appendD:
  assumes "\<not> has_marker_core (x @ y)"
  shows "\<not> has_marker_core x" and "\<not> has_marker_core y"
  using assms has_marker_core_append [of x "[]" y] has_marker_core_append [of y x "[]"]
  by auto

lemma no_core_Cons: "\<not> has_marker_core (c # cs) \<Longrightarrow> \<not> has_marker_core cs"
  using no_core_appendD(2) [of "[c]" cs] by simp

lemma no_core_take: "\<not> has_marker_core s \<Longrightarrow> \<not> has_marker_core (take n s)"
  using no_core_appendD(1) [of "take n s" "drop n s"] by simp

lemma no_core_drop: "\<not> has_marker_core s \<Longrightarrow> \<not> has_marker_core (drop n s)"
  using no_core_appendD(2) [of "take n s" "drop n s"] by simp

lemma marker_has_core: "has_marker_core (marker i)"
proof -
  obtain d ds where ds: "str_of_nat i = d # ds"
    using str_of_nat_not_Nil [of i] by (cases "str_of_nat i") auto
  then have "48 \<le> d \<and> d \<le> 57"
    using str_of_nat_digits [of d i] by simp
  moreover have "marker i = [95, 95] @ 80 # 72 # d # (ds @ [95, 95])"
    using ds by (simp add: marker_unfold)
  ultimately show ?thesis
    unfolding has_marker_core_iff by blast
qed

subsection \<open>Replacing where nothing else matches\<close>

lemma replace_first_at:
  assumes "old \<noteq> []"
    and "\<And>a b. pre = a @ b \<Longrightarrow> b \<noteq> [] \<Longrightarrow> \<not> prefix old (b @ old @ rest)"
  shows "replace_first old new (pre @ old @ rest) = pre @ new @ rest"
  using assms(2)
proof (induction pre)
  case Nil
  show ?case
    using assms(1) by (cases old) simp_all
next
  case (Cons c pre)
  have "\<not> prefix old ((c # pre) @ old @ rest)"
    using Cons.prems [of "[]" "c # pre"] by simp
  moreover have "replace_first old new (pre @ old @ rest) = pre @ new @ rest"
  proof (rule Cons.IH)
    fix a b
    assume "pre = a @ b" "b \<noteq> []"
    then show "\<not> prefix old (b @ old @ rest)"
      using Cons.prems [of "c # a" b] by simp
  qed
  ultimately show ?case by simp
qed

lemma replace_all_absent:
  assumes "old \<noteq> []"
    and "\<And>a b. s = a @ b \<Longrightarrow> \<not> prefix old b"
  shows "replace_all old new s = s"
  using assms(2)
proof (induction s)
  case Nil
  show ?case using assms(1) by simp
next
  case (Cons c s)
  have "\<not> prefix old (c # s)"
    using Cons.prems [of "[]" "c # s"] by simp
  moreover have "replace_all old new s = s"
  proof (rule Cons.IH)
    fix a b
    assume "s = a @ b"
    then show "\<not> prefix old b"
      using Cons.prems [of "c # a" b] by simp
  qed
  ultimately show ?case using assms(1) by simp
qed

lemma replace_all_at:
  assumes "old \<noteq> []"
    and "\<And>a b. pre = a @ b \<Longrightarrow> b \<noteq> [] \<Longrightarrow> \<not> prefix old (b @ old @ rest)"
  shows "replace_all old new (pre @ old @ rest) = pre @ new @ replace_all old new rest"
  using assms(2)
proof (induction pre)
  case Nil
  obtain x xs where old: "old = x # xs"
    using assms(1) by (cases old) auto
  show ?case
    by (simp add: old)
next
  case (Cons c pre)
  have "\<not> prefix old ((c # pre) @ old @ rest)"
    using Cons.prems [of "[]" "c # pre"] by simp
  moreover have "replace_all old new (pre @ old @ rest) = pre @ new @ replace_all old new rest"
  proof (rule Cons.IH)
    fix a b
    assume "pre = a @ b" "b \<noteq> []"
    then show "\<not> prefix old (b @ old @ rest)"
      using Cons.prems [of "c # a" b] by simp
  qed
  ultimately show ?case using assms(1) by simp
qed

subsection \<open>Extraction replaces every match where it stands\<close>

lemma match_at_split:
  assumes "match_at (c # cs) = Some n"
  shows "c # cs = take n (c # cs) @ drop (n - 1) cs"
    and "placeholder_shape (take n (c # cs))"
proof -
  show shape: "placeholder_shape (take n (c # cs))"
    using match_at_shape [OF assms] by simp
  have "n \<noteq> 0"
    using shape placeholder_shape_ends(1) [of "take n (c # cs)"] by auto
  then have "drop n (c # cs) = drop (n - 1) cs"
    by (cases n) simp_all
  then show "c # cs = take n (c # cs) @ drop (n - 1) cs"
    using append_take_drop_id [of n "c # cs"] by simp
qed

lemma clear_before_Nil: "clear_before [] rest"
  by (simp add: clear_before_def)

lemma clear_before_unmatched:
  assumes "clear_before pre (c # cs)" and "match_at (c # cs) = None"
  shows "clear_before (pre @ [c]) cs"
  unfolding clear_before_def
proof (intro allI impI notI, elim conjE)
  fix a b q
  assume split: "pre @ [c] = a @ b" and b: "b \<noteq> []"
    and q: "placeholder_shape q" "\<not> has_marker_core q" and occ: "prefix q (b @ cs)"
  from split b obtain u where u: "b = u @ [c]" "pre = a @ u"
    by (cases b rule: rev_cases) auto
  show False
  proof (cases "u = []")
    case True
    with occ u have "prefix q (c # cs)" by simp
    then obtain r where "c # cs = q @ r"
      by (auto simp: prefix_def)
    with placeholder_shape_matches [OF q(1), of r] assms(2) show False
      by simp
  next
    case False
    from occ u have "prefix q (u @ c # cs)" by simp
    with assms(1) u(2) False q show False
      unfolding clear_before_def by blast
  qed
qed

lemma clear_before_marker:
  assumes "clear_before pre (p @ rest)"
  shows "clear_before (pre @ marker i) rest"
  unfolding clear_before_def
proof (intro allI impI notI, elim conjE)
  fix a b q
  assume split: "pre @ marker i = a @ b" and b: "b \<noteq> []"
    and q: "placeholder_shape q" "\<not> has_marker_core q" and occ: "prefix q (b @ rest)"
  note ends = placeholder_shape_ends [OF q(1)]
  have hd_not_marker: "hd q \<notin> set (marker i)"
    using ends(2) marker_chars [of "hd q" i] by auto
  have last_not_marker: "last q \<notin> set (marker i)"
    using ends(3) marker_chars [of "last q" i] by auto
  from split obtain us where
    us: "(pre = a @ us \<and> us @ marker i = b) \<or> (pre @ us = a \<and> marker i = us @ b)"
    by (auto simp: append_eq_append_conv2)
  have "(\<exists>u. pre = a @ u \<and> b = u @ marker i \<and> u \<noteq> []) \<or> (\<exists>u. marker i = u @ b)"
  proof (cases "us = []")
    case True
    with us have "marker i = [] @ b" by auto
    then show ?thesis by blast
  next
    case False
    with us show ?thesis by blast
  qed
  then consider u where "pre = a @ u" "b = u @ marker i" "u \<noteq> []"
    | u where "marker i = u @ b"
    by blast
  then show False
  proof cases
    case 1
    from occ 1(2) have "prefix q (u @ marker i @ rest)" by simp
    then consider "prefix q u" | q' where "q = u @ q'" "prefix q' (marker i @ rest)"
      by (auto simp: prefix_append)
    then show False
    proof cases
      case 1
      then have "prefix q (u @ p @ rest)"
        by (simp add: prefix_append)
      with assms \<open>pre = a @ u\<close> \<open>u \<noteq> []\<close> q show False
        unfolding clear_before_def by blast
    next
      case 2
      from 2(2) consider "prefix q' (marker i)" | q'' where "q' = marker i @ q''"
        by (auto simp: prefix_append)
      then show False
      proof cases
        case 1
        show False
        proof (cases "q' = []")
          case True
          with 2(1) have "prefix q u" by simp
          then have "prefix q (u @ p @ rest)"
            by (simp add: prefix_append)
          with assms \<open>pre = a @ u\<close> \<open>u \<noteq> []\<close> q show False
            unfolding clear_before_def by blast
        next
          case False
          then have "last q = last q'"
            using 2(1) by simp
          moreover have "last q' \<in> set (marker i)"
            using 1 False by (metis last_in_set set_mono_prefix subsetD)
          ultimately show False
            using last_not_marker by simp
        qed
      next
        case 2
        with \<open>q = u @ q'\<close> have "q = u @ marker i @ q''" by simp
        then have "has_marker_core q"
          using has_marker_core_append [OF marker_has_core, of u i q''] by simp
        with q(2) show False by simp
      qed
    qed
  next
    case 2
    from occ ends(1) b have "hd q = hd b"
      by (cases q; cases b) (auto simp: prefix_def)
    moreover have "hd b \<in> set (marker i)"
      using 2 b by (metis hd_in_set in_set_conv_decomp list.set_intros(1) set_append UnI2 list.collapse)
    ultimately show False
      using hd_not_marker by simp
  qed
qed

lemma extract_loop_marks:
  assumes "clear_before pre rest" and "\<not> has_marker_core rest"
  shows "extract_loop i (finditer rest) (pre @ rest) phs =
           (pre @ mark_from i rest, phs @ markers_from i (finditer rest))"
  using assms
proof (induction rest arbitrary: pre i phs rule: finditer.induct)
  case 1
  show ?case by simp
next
  case (2 c cs)
  show ?case
  proof (cases "match_at (c # cs)")
    case None
    have "extract_loop i (finditer cs) ((pre @ [c]) @ cs) phs =
            ((pre @ [c]) @ mark_from i cs, phs @ markers_from i (finditer cs))"
      using None "2.prems"
      by (intro "2.IH"(1) clear_before_unmatched no_core_Cons [of c cs])
    with None show ?thesis by simp
  next
    case (Some n)
    let ?p = "take n (c # cs)" and ?rest = "drop (n - 1) cs"
    note split = match_at_split [OF Some]
    have p_core: "\<not> has_marker_core ?p"
      using "2.prems"(2) by (rule no_core_take)
    have p_not_Nil: "?p \<noteq> []"
      using split(2) by (rule placeholder_shape_ends(1))
    have clear: "clear_before pre (?p @ ?rest)"
      using "2.prems"(1) split(1) by simp
    have "replace_first ?p (marker i) (pre @ ?p @ ?rest) = pre @ marker i @ ?rest"
    proof (rule replace_first_at [OF p_not_Nil])
      fix a b
      assume "pre = a @ b" "b \<noteq> []"
      with clear split(2) p_core show "\<not> prefix ?p (b @ ?p @ ?rest)"
        unfolding clear_before_def by blast
    qed
    then have step: "replace_first ?p (marker i) (pre @ c # cs) = (pre @ marker i) @ ?rest"
      using split(1) by simp
    have "extract_loop (Suc i) (finditer ?rest) ((pre @ marker i) @ ?rest)
            (phs @ [(marker i, ?p)]) =
          ((pre @ marker i) @ mark_from (Suc i) ?rest,
           (phs @ [(marker i, ?p)]) @ markers_from (Suc i) (finditer ?rest))"
    proof (rule "2.IH"(2) [OF Some])
      show "clear_before (pre @ marker i) ?rest"
        using clear by (rule clear_before_marker)
      show "\<not> has_marker_core ?rest"
        using "2.prems"(2) no_core_Cons no_core_drop by blast
    qed
    with Some step show ?thesis by simp
  qed
qed

lemma extract_placeholders_marks:
  assumes "\<not> has_marker_core text"
  shows "extract_placeholders text = (mark_from 0 text, markers_from 0 (finditer text))"
  using extract_loop_marks [OF clear_before_Nil assms, of 0 "[]"]
  by (simp add: extract_placeholders_def)

subsection \<open>Restoring finds every marker where it was put\<close>

lemma marker_core_overlap:
  assumes "b \<noteq> []" and "prefix (95 # 95 # 80 # 72 # d # w) (b @ 95 # 95 # v)"
    and "48 \<le> d" and "d \<le> 57"
  shows "has_marker_core b"
proof -
  from assms(1) obtain b0 r0 where b0: "b = b0 # r0" by (cases b) auto
  show ?thesis
  proof (cases r0)
    case Nil
    with assms(2) b0 show ?thesis by simp
  next
    case (Cons b1 r1)
    note r0 = this
    show ?thesis
    proof (cases r1)
      case Nil
      with assms(2) b0 r0 show ?thesis by simp
    next
      case (Cons b2 r2)
      note r1 = this
      show ?thesis
      proof (cases r2)
        case Nil
        with assms(2) b0 r0 r1 show ?thesis by simp
      next
        case (Cons b3 r3)
        note r2 = this
        show ?thesis
        proof (cases r3)
          case Nil
          with assms(2-4) b0 r0 r1 r2 show ?thesis by simp
        next
          case (Cons b4 r4)
          with assms(2-4) b0 r0 r1 r2 show ?thesis by simp
        qed
      qed
    qed
  qed
qed

lemma no_marker_before:
  assumes "\<not> has_marker_core pre" and "pre = a @ b" and "b \<noteq> []"
  shows "\<not> prefix (marker i) (b @ marker i @ rest)"
proof
  assume occ: "prefix (marker i) (b @ marker i @ rest)"
  obtain d ds where ds: "str_of_nat i = d # ds"
    using str_of_nat_not_Nil [of i] by (cases "str_of_nat i") auto
  then have d: "48 \<le> d" "d \<le> 57"
    using str_of_nat_digits [of d i] by simp_all
  have m: "marker i = 95 # 95 # 80 # 72 # d # (ds @ [95, 95])"
    using ds by (simp add: marker_unfold)
  from occ have "prefix (95 # 95 # 80 # 72 # d # (ds @ [95, 95]))
                   (b @ 95 # 95 # (80 # 72 # d # (ds @ [95, 95]) @ rest))"
    by (simp add: m)
  then have "has_marker_core b"
    using assms(3) d by (intro marker_core_overlap)
  then have "has_marker_core (a @ b @ [])"
    by (rule has_marker_core_append)
  with assms(1,2) show False by simp
qed

lemma mark_from_head:
  assumes "mark_from j s = x # zs" and "x \<noteq> 95"
  shows "\<exists>s'. s = x # s' \<and> zs = mark_from j s'"
proof (cases s)
  case Nil
  with assms show ?thesis by simp
next
  case (Cons c cs)
  show ?thesis
  proof (cases "match_at (c # cs)")
    case None
    with assms Cons show ?thesis by simp
  next
    case (Some n)
    with assms Cons show ?thesis by (simp add: marker_unfold)
  qed
qed

lemma marker_suffix_from_P:
  assumes "marker j = a @ u" and "u \<noteq> []" and "hd u = 80"
  shows "u = 80 # 72 # str_of_nat j @ [95, 95]"
proof -
  have tail: False if "str_of_nat j @ [95, 95] = v @ u" for v
  proof -
    have "hd u \<in> set (str_of_nat j @ [95, 95])"
      using that assms(2) by (metis hd_in_set in_set_conv_decomp list.collapse set_append UnI2)
    then show False
      using assms(3) str_of_nat_digits [of 80 j] by auto
  qed
  from assms(1) have eq: "95 # 95 # 80 # 72 # str_of_nat j @ [95, 95] = a @ u"
    by (simp add: marker_unfold)
  show ?thesis
  proof (cases a)
    case Nil
    with eq assms(3) show ?thesis by (cases u) auto
  next
    case (Cons a0 r0)
    note a = this
    show ?thesis
    proof (cases r0)
      case Nil
      with eq a assms(3) show ?thesis by (cases u) auto
    next
      case (Cons a1 r1)
      note r0 = this
      show ?thesis
      proof (cases r1)
        case Nil
        with eq a r0 show ?thesis by simp
      next
        case (Cons a2 r2)
        note r1 = this
        show ?thesis
        proof (cases r2)
          case Nil
          with eq a r0 r1 assms(3) show ?thesis by (cases u) auto
        next
          case (Cons a3 r3)
          with eq a r0 r1 have "str_of_nat j @ [95, 95] = r3 @ u" by simp
          with tail show ?thesis by blast
        qed
      qed
    qed
  qed
qed

lemma core_in_mark_from:
  assumes "\<not> has_marker_core rest" and "mark_from j rest = a @ b"
    and "prefix [80, 72, d] b" and "48 \<le> d" and "d \<le> 57"
  shows "\<exists>k t. j \<le> k \<and> b = 80 # 72 # str_of_nat k @ [95, 95] @ t"
  using assms(1-3)
proof (induction rest arbitrary: a j rule: finditer.induct)
  case 1
  then show ?case by simp
next
  case (2 c cs)
  from "2.prems"(3) obtain t where b: "b = 80 # 72 # d # t"
    by (auto simp: prefix_def)
  show ?case
  proof (cases "match_at (c # cs)")
    case None
    with "2.prems"(2) have eq: "c # mark_from j cs = a @ b" by simp
    show ?thesis
    proof (cases a)
      case Nil
      with eq b have c: "c = 80" and m1: "mark_from j cs = 72 # d # t" by simp_all
      from mark_from_head [OF m1] obtain s' where s': "cs = 72 # s'" "d # t = mark_from j s'"
        by auto
      have "d \<noteq> 95" using assms(5) by simp
      with mark_from_head [of j s' d t] s'(2) obtain s'' where "s' = d # s''"
        by auto
      with c s'(1) assms(4,5) have "has_marker_core (c # cs)" by simp
      with "2.prems"(1) show ?thesis by simp
    next
      case (Cons a0 a')
      with eq have "mark_from j cs = a' @ b" by simp
      with "2.IH"(1) [OF None] "2.prems"(1,3) no_core_Cons [of c cs] show ?thesis
        by blast
    qed
  next
    case (Some n)
    let ?rest = "drop (n - 1) cs"
    have core: "\<not> has_marker_core ?rest"
      using "2.prems"(1) no_core_Cons no_core_drop by blast
    from Some "2.prems"(2) have "marker j @ mark_from (Suc j) ?rest = a @ b" by simp
    then obtain us where
      us: "(marker j = a @ us \<and> us @ mark_from (Suc j) ?rest = b) \<or>
           (marker j @ us = a \<and> mark_from (Suc j) ?rest = us @ b)"
      by (auto simp: append_eq_append_conv2)
    show ?thesis
    proof (cases "marker j = a @ us \<and> us @ mark_from (Suc j) ?rest = b \<and> us \<noteq> []")
      case True
      with b have "hd us = 80" by (cases us) auto
      with True have "us = 80 # 72 # str_of_nat j @ [95, 95]"
        by (intro marker_suffix_from_P [of j a us]) simp_all
      with True have "b = 80 # 72 # str_of_nat j @ [95, 95] @ mark_from (Suc j) ?rest"
        by auto
      then show ?thesis by blast
    next
      case False
      with us obtain vs where "mark_from (Suc j) ?rest = vs @ b"
        by (cases "us = []") auto
      from "2.IH"(2) [OF Some core this "2.prems"(3)]
      obtain k t' where "Suc j \<le> k" "b = 80 # 72 # str_of_nat k @ [95, 95] @ t'"
        by blast
      then have "j \<le> k \<and> b = 80 # 72 # str_of_nat k @ [95, 95] @ t'" by simp
      then show ?thesis by blast
    qed
  qed
qed

lemma digits_before_underscore:
  fixes xs ys :: "nat list"
  assumes "xs @ 95 # v = ys @ 95 # t" and "95 \<notin> set xs" and "95 \<notin> set ys"
  shows "xs = ys"
proof -
  have "takeWhile (\<lambda>x. x \<noteq> 95) (zs @ 95 # w) = zs" if "95 \<notin> set zs" for zs w :: "nat list"
    using that by (induction zs) auto
  from this [OF assms(2), of v] this [OF assms(3), of t] assms(1) show ?thesis
    by simp
qed

lemma no_marker_in_mark_from:
  assumes "\<not> has_marker_core rest" and "i < j" and "mark_from j rest = a @ b"
  shows "\<not> prefix (marker i) b"
proof
  assume "prefix (marker i) b"
  then obtain v where b: "b = marker i @ v"
    by (auto simp: prefix_def)
  obtain d ds where ds: "str_of_nat i = d # ds"
    using str_of_nat_not_Nil [of i] by (cases "str_of_nat i") auto
  then have d: "48 \<le> d" "d \<le> 57"
    using str_of_nat_digits [of d i] by simp_all
  let ?b = "80 # 72 # str_of_nat i @ [95, 95] @ v"
  have split: "mark_from j rest = (a @ [95, 95]) @ ?b"
    using assms(3) b by (simp add: marker_unfold)
  have "prefix [80, 72, d] ?b"
    using ds by simp
  from core_in_mark_from [OF assms(1) split this d]
  obtain k t where k: "j \<le> k" and eq: "?b = 80 # 72 # str_of_nat k @ [95, 95] @ t"
    by blast
  from eq have "str_of_nat i @ 95 # (95 # v) = str_of_nat k @ 95 # (95 # t)"
    by simp
  moreover have "95 \<notin> set (str_of_nat i)" "95 \<notin> set (str_of_nat k)"
    using str_of_nat_digits [of 95 i] str_of_nat_digits [of 95 k] by auto
  ultimately have "str_of_nat i = str_of_nat k"
    by (rule digits_before_underscore)
  then have "i = k" by (rule str_of_nat_inject)
  with k assms(2) show False by simp
qed

lemma restore_placeholders_marks:
  assumes "\<not> has_marker_core (pre @ rest)"
  shows "restore_placeholders (pre @ mark_from i rest) (markers_from i (finditer rest)) = pre @ rest"
  using assms
proof (induction rest arbitrary: pre i rule: finditer.induct)
  case 1
  show ?case by simp
next
  case (2 c cs)
  show ?case
  proof (cases "match_at (c # cs)")
    case None
    have "restore_placeholders ((pre @ [c]) @ mark_from i cs) (markers_from i (finditer cs)) =
            (pre @ [c]) @ cs"
      using None "2.prems" by (intro "2.IH"(1)) simp_all
    with None show ?thesis by simp
  next
    case (Some n)
    let ?p = "take n (c # cs)" and ?rest = "drop (n - 1) cs"
    let ?marked = "mark_from (Suc i) ?rest"
    note split = match_at_split [OF Some]
    have pre_core: "\<not> has_marker_core pre" and rest_core: "\<not> has_marker_core ?rest"
      using "2.prems" no_core_appendD [of pre "c # cs"] no_core_Cons [of c cs]
        no_core_drop [of cs "n - 1"]
      by blast+
    have "replace_all (marker i) ?p (pre @ marker i @ ?marked) =
            pre @ ?p @ replace_all (marker i) ?p ?marked"
    proof (rule replace_all_at [OF marker_not_Nil])
      fix a b
      assume "pre = a @ b" "b \<noteq> []"
      with pre_core show "\<not> prefix (marker i) (b @ marker i @ ?marked)"
        by (rule no_marker_before)
    qed
    moreover have "replace_all (marker i) ?p ?marked = ?marked"
    proof (rule replace_all_absent [OF marker_not_Nil])
      fix a b
      assume "?marked = a @ b"
      with rest_core show "\<not> prefix (marker i) b"
        by (intro no_marker_in_mark_from [of ?rest i "Suc i" a b]) simp_all
    qed
    ultimately have step:
      "replace_all (marker i) ?p (pre @ marker i @ ?marked) = (pre @ ?p) @ ?marked"
      by simp
    have "restore_placeholders ((pre @ ?p) @ ?marked) (markers_from (Suc i) (finditer ?rest)) =
            (pre @ ?p) @ ?rest"
    proof (rule "2.IH"(2) [OF Some])
      show "\<not> has_marker_core ((pre @ ?p) @ ?rest)"
        using "2.prems" split(1) by simp
    qed
    with Some step split(1) show ?thesis by simp
  qed
qed

text \<open>
  C1.  For every text in which \<open>PH\<close> is nowhere followed by a decimal digit, so that it
  holds the core of no marker, restoring the placeholders extracted from the text into
  the text that the extraction returns gives the text back, whatever placeholders of
  whatever kinds it holds.
\<close>

theorem round_trip_without_marker_core:
  assumes "\<not> has_marker_core text"
  shows "restore_placeholders (fst (extract_placeholders text)) (snd (extract_placeholders text)) =
           text"
  using restore_placeholders_marks [of "[]" "text" 0] assms
  by (simp add: extract_placeholders_marks)

theorem round_trip_without_marker_core_witness:
  "restore_placeholders
     (fst (extract_placeholders (py ''%1$@ took %lld PHOTOS of $(place) {0} %@'')))
     (snd (extract_placeholders (py ''%1$@ took %lld PHOTOS of $(place) {0} %@''))) =
   py ''%1$@ took %lld PHOTOS of $(place) {0} %@''"
proof -
  have "\<not> has_marker_core (py ''%1$@ took %lld PHOTOS of $(place) {0} %@'')"
    by simp
  then show ?thesis
    by (rule round_trip_without_marker_core)
qed

text \<open>
  The markers are not reserved: a text that already holds the text of a marker comes
  back changed.  In \<open>__PH0__ %d\<close> the placeholder \<open>%d\<close> becomes a second \<open>__PH0__\<close>, and
  restoring replaces both.
\<close>

theorem round_trip_counterexample:
  "restore_placeholders (fst (extract_placeholders (py ''__PH0__ %d'')))
     (snd (extract_placeholders (py ''__PH0__ %d''))) = py ''%d %d'' \<and>
   restore_placeholders (fst (extract_placeholders (py ''__PH0__ %d'')))
     (snd (extract_placeholders (py ''__PH0__ %d''))) \<noteq> py ''__PH0__ %d''"
  by (simp add: extract_placeholders_def pattern_defs marker_def str_of_nat.simps)

section \<open>Restoring a file after a failure\<close>

text \<open>
  When the file read back after \<open>tree.write\<close> cannot be decoded or shows no \<open><?xml\<close>, the
  call returns no translated unit and as many errors as units were translated, and the
  file holds \<open>original_content\<close> as text mode writes it: the decoded bytes with every
  \<open>\r\n\<close> and \<open>\r\<close> turned into \<open>\n\<close> and then every \<open>\n\<close> into the line separator.
\<close>

lemma universal_newlines_without_return:
  "13 \<notin> set s \<Longrightarrow> universal_newlines s = s"
  by (induction s rule: universal_newlines.induct) auto

lemma failed_verification_writes_back:
  assumes on_disk: "files st xliff_path = Some bytes"
    and decoded: "utf8_decode e bytes = Some content"
    and parsed: "xml_parse e bytes = Some trans_units"
    and looped: "process_units e f xliff_path False only_missing
                   (\<lparr>translated_count = 0, error_count = 0, modified = False\<rparr>, st) trans_units =
                 Inr r"
    and changed: "modified (fst (fst r))"
    and wrote: "xml_write e bytes (snd r) = Some written"
    and failed: "case utf8_decode e written of
                   None \<Rightarrow> True
                 | Some test_content \<Rightarrow>
                     \<not> contains (py ''<?xml'') (take 100 (universal_newlines test_content))"
  shows "fst (process_xliff_file e f xliff_path False only_missing st) =
           (0, length (filter (translation_needed only_missing) trans_units)) \<and>
         files (snd (process_xliff_file e f xliff_path False only_missing st)) xliff_path =
           Some (utf8_encode e
             (concat (map (\<lambda>c. if c = 10 then linesep e else [c]) (universal_newlines content))))"
proof -
  have count: "translated_count (fst (fst r)) =
                 length (filter (translation_needed only_missing) trans_units)"
    using process_units_count [OF looped] by simp
  show ?thesis
    using on_disk decoded parsed looped changed wrote failed count
    by (simp add: process_xliff_file_def read_text_def write_text_def Let_def
          split: option.splits)
qed

text \<open>
  These are the bytes the file held before the call when the file has no carriage
  return and the line separator is \<open>\n\<close>.
\<close>

lemma failed_verification_restores_without_return:
  assumes "files st xliff_path = Some bytes"
    and "utf8_decode e bytes = Some content"
    and "xml_parse e bytes = Some trans_units"
    and "process_units e f xliff_path False only_missing
           (\<lparr>translated_count = 0, error_count = 0, modified = False\<rparr>, st) trans_units = Inr r"
    and "modified (fst (fst r))"
    and "xml_write e bytes (snd r) = Some written"
    and "case utf8_decode e written of
           None \<Rightarrow> True
         | Some test_content \<Rightarrow>
             \<not> contains (py ''<?xml'') (take 100 (universal_newlines test_content))"
    and codec: "utf8_encode e content = bytes"
    and posix: "linesep e = [10]"
    and no_return: "13 \<notin> set content"
  shows "files (snd (process_xliff_file e f xliff_path False only_missing st)) xliff_path =
           files st xliff_path"
proof -
  have "concat (map (\<lambda>c. if c = 10 then linesep e else [c]) s) = s" for s :: pystr
    using posix by (induction s) auto
  with failed_verification_writes_back [OF assms(1-7)] codec no_return assms(1)
  show ?thesis
    by (simp add: universal_newlines_without_return)
qed

text \<open>The file with the line ending \<open>\n\<close> is such a file: the call leaves it as it was.\<close>

lemma failed_verification_restores_lf_file:
  "fst (process_xliff_file example_env True ''fr.xcloc/fr.xliff'' False False (state_with lf_file)) =
     (0, 1) \<and>
   files (snd (process_xliff_file example_env True ''fr.xcloc/fr.xliff'' False False
            (state_with lf_file))) ''fr.xcloc/fr.xliff'' =
     files (state_with lf_file) ''fr.xcloc/fr.xliff''"
  by (simp add: run_defs file_defs translate_defs skip_defs pattern_defs char_of_def bit_0)

text \<open>
  The outer handler writes the same text back.  When the XML library refuses the text
  of a translation, a real run returns \<open>(0, 1)\<close>, and the file that had the line ending
  \<open>\r\n\<close> is left with the line ending \<open>\n\<close>; the request was made, and the line
  printed names the file by its last component.  The dry run of the same call counts
  the unit.
\<close>

lemma refused_text_leaves_the_loop:
  "fst (process_xliff_file control_env True ''fr.xcloc/fr.xliff'' False False
          (state_with crlf_file)) = (0, 1) \<and>
   files (snd (process_xliff_file control_env True ''fr.xcloc/fr.xliff'' False False
                 (state_with crlf_file))) ''fr.xcloc/fr.xliff'' = Some lf_file \<and>
   requests (snd (process_xliff_file control_env True ''fr.xcloc/fr.xliff'' False False
                    (state_with crlf_file))) = [py ''Hello''] \<and>
   printed (snd (process_xliff_file control_env True ''fr.xcloc/fr.xliff'' False False
                    (state_with crlf_file))) = [ERROR_processing ''fr.xliff''] \<and>
   fst (process_xliff_file control_env True ''fr.xcloc/fr.xliff'' True False
          (state_with crlf_file)) = (1, 0)"
  by (simp add: control_env_def run_defs file_defs translate_defs skip_defs pattern_defs
        char_of_def bit_0)

text \<open>
  C2.  \<open>original_content\<close> is read in text mode, where every \<open>\r\n\<close> becomes \<open>\n\<close>, and
  it is written back in text mode.  For a file with the line ending \<open>\r\n\<close> that is found
  empty when it is read back after \<open>tree.write\<close>, the call returns \<open>(0, 1)\<close>, one error for
  the one unit translated, and leaves the file with the line ending \<open>\n\<close>: not the bytes it
  held before the call.
\<close>

theorem restore_after_failed_verification:
  "fst (process_xliff_file example_env True ''fr.xcloc/fr.xliff'' False False
          (state_with crlf_file)) = (0, 1) \<and>
   files (state_with crlf_file) ''fr.xcloc/fr.xliff'' = Some crlf_file \<and>
   files (snd (process_xliff_file example_env True ''fr.xcloc/fr.xliff'' False False
                 (state_with crlf_file))) ''fr.xcloc/fr.xliff'' = Some lf_file \<and>
   lf_file \<noteq> crlf_file"
  by (simp add: run_defs file_defs translate_defs skip_defs pattern_defs char_of_def bit_0)

section \<open>Validation\<close>

text \<open>
  C3.  \<open>validate\<close> succeeds exactly when the translated text has as many placeholders as
  the original and the same set of distinct placeholders.
\<close>

theorem validate_success_iff:
  "validate original translated = None \<longleftrightarrow>
     length (validator_extract_placeholders translated) =
       length (validator_extract_placeholders original) \<and>
     set (validator_extract_placeholders translated) =
       set (validator_extract_placeholders original)"
  by (auto simp: validate_def Let_def)

section \<open>A translation that fails validation\<close>

text \<open>
  C4.  When the translation with its placeholders restored fails validation, the strict
  policy returns the source text with the validation error, and the relaxed policy
  returns the translation with no error and prints the error as a warning.  The error
  is the count mismatch whenever the two texts differ in their number of placeholders;
  it lists the missing placeholders, or else the extra ones, only when the numbers
  agree.
\<close>

theorem validation_failure_policy:
  assumes "\<not> should_skip_translation text"
    and "strip (fst (extract_placeholders text)) \<noteq> []"
    and "translate (fst (extract_placeholders text)) = Inr answer"
    and "validate text (restore_placeholders answer (snd (extract_placeholders text))) = Some error"
  shows "translate_text True translate text =
           \<lparr>returned_text = text, returned_error = Some (PlaceholderValidationFailed error),
            request = Some (fst (extract_placeholders text)), warning = None\<rparr> \<and>
         translate_text False translate text =
           \<lparr>returned_text = restore_placeholders answer (snd (extract_placeholders text)),
            returned_error = None, request = Some (fst (extract_placeholders text)),
            warning = Some (PlaceholderValidationFailed error)\<rparr> \<and>
         error =
           (let original_placeholders = finditer text;
                translated_placeholders =
                  finditer (restore_placeholders answer (snd (extract_placeholders text)))
            in if length original_placeholders \<noteq> length translated_placeholders
               then CountMismatch (length original_placeholders) (length translated_placeholders)
               else if set original_placeholders - set translated_placeholders \<noteq> {}
               then MissingPlaceholders (set original_placeholders - set translated_placeholders)
               else ExtraPlaceholders (set translated_placeholders - set original_placeholders))"
proof -
  have msg: "error =
           (let original_placeholders = finditer text;
                translated_placeholders =
                  finditer (restore_placeholders answer (snd (extract_placeholders text)))
            in if length original_placeholders \<noteq> length translated_placeholders
               then CountMismatch (length original_placeholders) (length translated_placeholders)
               else if set original_placeholders - set translated_placeholders \<noteq> {}
               then MissingPlaceholders (set original_placeholders - set translated_placeholders)
               else ExtraPlaceholders (set translated_placeholders - set original_placeholders))"
    using assms(4)
    by (simp add: validate_def validator_extract_placeholders_def Let_def split: if_splits)
  show ?thesis
    using assms(1-4) msg by (simp add: translate_text_def Let_def restore_placeholders_if)
qed

text \<open>
  Scenario B: the service answers without the marker, the restored text has no
  placeholder, the source has one.
\<close>

theorem validation_failure_policy_witness:
  "translate_text True (\<lambda>text. Inr (py ''Vous avez bu ml aujourd'hui'')) scenario_source =
     \<lparr>returned_text = scenario_source,
      returned_error = Some (PlaceholderValidationFailed (CountMismatch 1 0)),
      request = Some scenario_request, warning = None\<rparr> \<and>
   translate_text False (\<lambda>text. Inr (py ''Vous avez bu ml aujourd'hui'')) scenario_source =
     \<lparr>returned_text = py ''Vous avez bu ml aujourd'hui'', returned_error = None,
      request = Some scenario_request,
      warning = Some (PlaceholderValidationFailed (CountMismatch 1 0))\<rparr>"
proof -
  let ?answer = "py ''Vous avez bu ml aujourd'hui''"
  have restored: "restore_placeholders ?answer (snd (extract_placeholders scenario_source)) = ?answer"
    by (simp add: scenario_extract)
  have h2: "strip (fst (extract_placeholders scenario_source)) \<noteq> []"
    by (simp add: scenario_extract scenario_request_not_blank)
  have h3: "(\<lambda>text. Inr ?answer) (fst (extract_placeholders scenario_source)) = Inr ?answer"
    by simp
  have h4: "validate scenario_source
              (restore_placeholders ?answer (snd (extract_placeholders scenario_source))) =
            Some (CountMismatch 1 0)"
    unfolding restored
    by (simp add: validate_def validator_extract_placeholders_def scenario_placeholders pattern_defs)
  from validation_failure_policy [OF scenario_skip h2 h3 h4] show ?thesis
    unfolding restored by (simp add: scenario_extract)
qed

text \<open>
  In scenario B the error under the strict policy is the count mismatch, a message that
  names no placeholder.
\<close>

theorem validation_error_counterexample:
  "returned_error
     (translate_text True (\<lambda>text. Inr (py ''Vous avez bu ml aujourd'hui'')) scenario_source) =
     Some (PlaceholderValidationFailed (CountMismatch 1 0)) \<and>
   \<not> names_placeholder (CountMismatch 1 0) (py ''%lld'')"
proof -
  show ?thesis
    by (simp add: translate_text_def scenario_skip scenario_extract scenario_request_not_blank
          validate_def validator_extract_placeholders_def scenario_placeholders pattern_defs)
qed

section \<open>Unit literals\<close>

text \<open>
  C5.  A text whose trimmed form is a unit literal is returned as it is and never
  reaches the service.  Inside a longer text a unit literal is ordinary text: for
  \<open>You drank %lld ml today\<close> only \<open>%lld\<close> is replaced by a marker, and when the service
  answers \<open>Vous avez bu __PH0__ ml aujourd'hui\<close> the call returns
  \<open>Vous avez bu %lld ml aujourd'hui\<close> with no error.
\<close>

theorem units_protected_as_whole_segments:
  "(strip text \<in> set UNITS \<longrightarrow>
      translate_text f translate text =
        \<lparr>returned_text = text, returned_error = None, request = None, warning = None\<rparr>) \<and>
   extract_placeholders scenario_source = (scenario_request, [(py ''__PH0__'', py ''%lld'')]) \<and>
   (translate scenario_request = Inr (py ''Vous avez bu __PH0__ ml aujourd'hui'') \<longrightarrow>
      translate_text f translate scenario_source =
        \<lparr>returned_text = py ''Vous avez bu %lld ml aujourd'hui'', returned_error = None,
         request = Some scenario_request, warning = None\<rparr>)"
proof -
  have whole: "strip text \<in> set UNITS \<Longrightarrow> should_skip_translation text"
    by (simp add: should_skip_translation_def)
  have restored: "restore_placeholders (py ''Vous avez bu __PH0__ ml aujourd'hui'')
                    [(py ''__PH0__'', py ''%lld'')] = py ''Vous avez bu %lld ml aujourd'hui''"
    by simp
  have valid: "validate scenario_source (py ''Vous avez bu %lld ml aujourd'hui'') = None"
    by (simp add: validate_def validator_extract_placeholders_def scenario_placeholders pattern_defs)
  have inside: "translate scenario_request = Inr (py ''Vous avez bu __PH0__ ml aujourd'hui'') \<Longrightarrow>
      translate_text f translate scenario_source =
        \<lparr>returned_text = py ''Vous avez bu %lld ml aujourd'hui'', returned_error = None,
         request = Some scenario_request, warning = None\<rparr>"
    using valid restored
    by (simp add: translate_text_def scenario_skip scenario_extract scenario_request_not_blank
          del: restore_placeholders.simps replace_all.simps)
  from whole inside show ?thesis
    by (simp add: translate_text_def scenario_extract)
qed

theorem units_protected_as_whole_segments_witness:
  "translate_text True (\<lambda>text. Inr (py ''Vous avez bu __PH0__ ml aujourd'hui'')) (py ''ml'') =
     \<lparr>returned_text = py ''ml'', returned_error = None, request = None, warning = None\<rparr> \<and>
   translate_text True (\<lambda>text. Inr (py ''Vous avez bu __PH0__ ml aujourd'hui'')) scenario_source =
     \<lparr>returned_text = py ''Vous avez bu %lld ml aujourd'hui'', returned_error = None,
      request = Some scenario_request, warning = None\<rparr>"
proof -
  have u: "strip (py ''ml'') \<in> set UNITS"
    by (simp add: strip_def is_space_def UNITS_def)
  from units_protected_as_whole_segments
         [of "py ''ml''" True "\<lambda>text. Inr (py ''Vous avez bu __PH0__ ml aujourd'hui'')"] u
  show ?thesis
    by blast
qed

text \<open>
  A service that spells the unit out changes it, and the call returns that text with
  no error.
\<close>

theorem unit_literal_counterexample:
  "translate_text True (\<lambda>text. Inr (py ''Vous avez bu __PH0__ millilitres aujourd'hui''))
     scenario_source =
     \<lparr>returned_text = py ''Vous avez bu %lld millilitres aujourd'hui'', returned_error = None,
      request = Some scenario_request, warning = None\<rparr>"
proof -
  have restored: "restore_placeholders (py ''Vous avez bu __PH0__ millilitres aujourd'hui'')
                    [(py ''__PH0__'', py ''%lld'')] = py ''Vous avez bu %lld millilitres aujourd'hui''"
    by simp
  have valid: "validate scenario_source (py ''Vous avez bu %lld millilitres aujourd'hui'') = None"
    by (simp add: validate_def validator_extract_placeholders_def scenario_placeholders pattern_defs)
  show ?thesis
    using valid restored
    by (simp add: translate_text_def scenario_skip scenario_extract scenario_request_not_blank
          del: restore_placeholders.simps replace_all.simps)
qed

section \<open>Dry runs\<close>




section \<open>Only missing translations\<close>

text \<open>
  C7.  With \<open>only_missing\<close> set, for a unit whose source text is not blank and that has
  a target: a target text equal to the source text is translated, which succeeds in a
  dry run and whenever the XML library takes the text returned, and the unit is then
  counted; a target text that is not blank, differs from the source text once both are
  trimmed, and is not flagged \<open>needs-review-l10n\<close> leaves the loop variables, the state
  and the unit as they were.
\<close>

theorem only_missing_decision:
  assumes "unit_source unit = Some (Some source_text)"
    and "strip source_text \<noteq> []"
    and "unit_target unit = Some target"
  shows "(target_text target = Some source_text \<longrightarrow>
            translation_needed True unit \<and>
            process_unit e f xliff_path dry_run True ps unit =
              (case translate_unit e f xliff_path dry_run source_text target ps of
                 Inl raised \<Rightarrow> Inl raised
               | Inr r \<Rightarrow> Inr (fst r, unit\<lparr>unit_target := Some (snd r)\<rparr>)) \<and>
            (dry_run \<or>
             xml_text_ok e
               (returned_text (translate_text f (service e (requests (snd ps))) source_text)) \<longrightarrow>
               (\<exists>r. process_unit e f xliff_path dry_run True ps unit = Inr r)) \<and>
            (\<forall>r. process_unit e f xliff_path dry_run True ps unit = Inr r \<longrightarrow>
                   translated_count (fst (fst r)) = translated_count (fst ps) + 1)) \<and>
         (\<forall>x. target_text target = Some x \<and> strip x \<noteq> [] \<and> strip x \<noteq> strip source_text \<and>
               target_state target \<noteq> Some (py ''needs-review-l10n'') \<longrightarrow>
               \<not> translation_needed True unit \<and>
               process_unit e f xliff_path dry_run True ps unit = Inr (ps, unit))"
proof -
  have ne: "source_text \<noteq> []"
    using assms(2) by (auto simp: strip_def)
  have a: "needs_translation True source_text (Some target) = Some True"
    if "target_text target = Some source_text"
    using that assms(2) ne by (simp add: needs_translation_def)
  have b: "target_text target = Some x \<Longrightarrow> strip x \<noteq> [] \<Longrightarrow> strip x \<noteq> strip source_text \<Longrightarrow>
             target_state target \<noteq> Some (py ''needs-review-l10n'') \<Longrightarrow>
             needs_translation True source_text (Some target) = None" for x
    by (auto simp: needs_translation_def strip_def)
  have body: "process_unit e f xliff_path dry_run True ps unit =
              (case translate_unit e f xliff_path dry_run source_text target ps of
                 Inl raised \<Rightarrow> Inl raised
               | Inr r \<Rightarrow> Inr (fst r, unit\<lparr>unit_target := Some (snd r)\<rparr>))"
    if "target_text target = Some source_text"
    using assms a [OF that] by (simp add: process_unit_def)
  have needed: "translation_needed True unit" if "target_text target = Some source_text"
    using assms a [OF that] by (simp add: translation_needed_def)
  have returns: "\<exists>r. process_unit e f xliff_path dry_run True ps unit = Inr r"
    if "target_text target = Some source_text"
      and "dry_run \<or> xml_text_ok e
             (returned_text (translate_text f (service e (requests (snd ps))) source_text))"
    using translate_unit_returns [OF that(2), of xliff_path target] body [OF that(1)] by auto
  have counted: "translated_count (fst (fst r)) = translated_count (fst ps) + 1"
    if "target_text target = Some source_text"
      and "process_unit e f xliff_path dry_run True ps unit = Inr r" for r
    using process_unit_count [OF that(2)] needed [OF that(1)] by simp
  have skipped: "\<not> translation_needed True unit \<and>
                 process_unit e f xliff_path dry_run True ps unit = Inr (ps, unit)"
    if "target_text target = Some x" "strip x \<noteq> []" "strip x \<noteq> strip source_text"
      "target_state target \<noteq> Some (py ''needs-review-l10n'')" for x
    using assms b [OF that] by (simp add: process_unit_def translation_needed_def)
  from body needed returns counted skipped show ?thesis
    by blast
qed

theorem only_missing_decision_witness:
  "(\<exists>r. process_unit example_env True ''fr.xcloc/fr.xliff'' False True
          (\<lparr>translated_count = 0, error_count = 0, modified = False\<rparr>, state_with crlf_file)
          copied_unit = Inr r \<and>
        translated_count (fst (fst r)) = 1) \<and>
   process_unit example_env True ''fr.xcloc/fr.xliff'' False True
      (\<lparr>translated_count = 0, error_count = 0, modified = False\<rparr>, state_with crlf_file)
      translated_unit =
     Inr ((\<lparr>translated_count = 0, error_count = 0, modified = False\<rparr>, state_with crlf_file),
          translated_unit)"
proof -
  let ?ps = "(\<lparr>translated_count = 0, error_count = 0, modified = False\<rparr>, state_with crlf_file)"
  have s: "strip (py ''Hello'') \<noteq> []"
    by (simp add: strip_def is_space_def)
  have c1: "unit_source copied_unit = Some (Some (py ''Hello''))"
    and c3: "unit_target copied_unit = Some \<lparr>target_text = Some (py ''Hello''), target_state = None\<rparr>"
    by (simp_all add: copied_unit_def)
  have t1: "unit_source translated_unit = Some (Some (py ''Hello''))"
    and t3: "unit_target translated_unit =
               Some \<lparr>target_text = Some (py ''Hallo''), target_state = Some (py ''translated'')\<rparr>"
    by (simp_all add: translated_unit_def)
  have d: "strip (py ''Hallo'') \<noteq> [] \<and> strip (py ''Hallo'') \<noteq> strip (py ''Hello'')"
    by (simp add: strip_def is_space_def)
  have ok: "xml_text_ok example_env
              (returned_text (translate_text True
                 (service example_env (requests (snd ?ps))) (py ''Hello'')))"
    by (simp add: example_env_def no_control_characters_def translate_defs skip_defs pattern_defs)
  have tt: "target_text \<lparr>target_text = Some (py ''Hello''), target_state = None\<rparr> =
              Some (py ''Hello'')"
    by simp
  note copied =
    only_missing_decision [OF c1 s c3, of example_env True "''fr.xcloc/fr.xliff''" False ?ps,
      THEN conjunct1, THEN mp, OF tt]
  from copied [THEN conjunct2, THEN conjunct2, THEN conjunct1] ok
  have "\<exists>r. process_unit example_env True ''fr.xcloc/fr.xliff'' False True ?ps copied_unit = Inr r"
    by blast
  then obtain r where
    r: "process_unit example_env True ''fr.xcloc/fr.xliff'' False True ?ps copied_unit = Inr r" ..
  from copied [THEN conjunct2, THEN conjunct2, THEN conjunct2, THEN spec, THEN mp, OF r]
  have "translated_count (fst (fst r)) = 1"
    by simp
  with r
  have first: "\<exists>r. process_unit example_env True ''fr.xcloc/fr.xliff'' False True ?ps copied_unit =
                 Inr r \<and> translated_count (fst (fst r)) = 1"
    by simp
  from only_missing_decision [OF t1 s t3, of example_env True "''fr.xcloc/fr.xliff''" False ?ps] d
  have second: "process_unit example_env True ''fr.xcloc/fr.xliff'' False True ?ps translated_unit =
                  Inr (?ps, translated_unit)"
    by simp
  from first second show ?thesis by blast
qed

text \<open>
  A target that differs from the source but is flagged \<open>needs-review-l10n\<close> is
  translated, counted and overwritten, with \<open>only_missing\<close> set too.
\<close>

theorem only_missing_counterexample:
  "process_unit example_env True ''fr.xcloc/fr.xliff'' False True
      (\<lparr>translated_count = 0, error_count = 0, modified = False\<rparr>, state_with crlf_file)
      reviewed_unit =
     Inr ((\<lparr>translated_count = 1, error_count = 0, modified = True\<rparr>,
           (state_with crlf_file)\<lparr>requests := [py ''Hello'']\<rparr>),
          reviewed_unit\<lparr>unit_target :=
            Some \<lparr>target_text = Some (py ''Bonjour''), target_state = Some (py ''translated'')\<rparr>\<rparr>)"
  by (simp add: process_unit_def reviewed_unit_def needs_translation_def translate_unit_def
        example_env_def no_control_characters_def state_with_def translate_defs skip_defs
        pattern_defs)

section \<open>Paths that do not translate\<close>

text \<open>
  C8.  \<open>translate_text\<close> returns the text it was given, with no error and without
  calling the service, when the skip policy says so or when nothing but whitespace is
  left once the placeholders are replaced; and when the service fails it returns the
  text it was given together with the translation error.
\<close>

theorem untranslated_paths_return_the_source:
  "(should_skip_translation text \<or> strip (fst (extract_placeholders text)) = [] \<longrightarrow>
      translate_text f translate text =
        \<lparr>returned_text = text, returned_error = None, request = None, warning = None\<rparr>) \<and>
   (\<not> should_skip_translation text \<and> strip (fst (extract_placeholders text)) \<noteq> [] \<and>
    translate (fst (extract_placeholders text)) = Inl e \<longrightarrow>
      translate_text f translate text =
        \<lparr>returned_text = text, returned_error = Some (TranslationError e),
         request = Some (fst (extract_placeholders text)), warning = None\<rparr>)"
  by (simp add: translate_text_def Let_def)

theorem untranslated_paths_return_the_source_witness:
  "translate_text True (\<lambda>text. Inl (py ''timed out'')) (py ''kg'') =
     \<lparr>returned_text = py ''kg'', returned_error = None, request = None, warning = None\<rparr> \<and>
   translate_text True (\<lambda>text. Inl (py ''timed out'')) (py ''Hello %@'') =
     \<lparr>returned_text = py ''Hello %@'', returned_error = Some (TranslationError (py ''timed out'')),
      request = Some (py ''Hello __PH0__''), warning = None\<rparr>"
proof -
  have skip: "should_skip_translation (py ''kg'')"
    by (simp add: skip_defs)
  have noskip: "\<not> should_skip_translation (py ''Hello %@'')"
    by (simp add: skip_defs pattern_defs)
  have ex: "fst (extract_placeholders (py ''Hello %@'')) = py ''Hello __PH0__''"
    by (simp add: extract_placeholders_def pattern_defs marker_def str_of_nat.simps)
  have rest: "strip (py ''Hello __PH0__'') \<noteq> []"
    by (simp add: strip_def is_space_def)
  from untranslated_paths_return_the_source
         [of "py ''kg''" True "\<lambda>text. Inl (py ''timed out'')" "py ''timed out''"] skip
  have first: "translate_text True (\<lambda>text. Inl (py ''timed out'')) (py ''kg'') =
     \<lparr>returned_text = py ''kg'', returned_error = None, request = None, warning = None\<rparr>"
    by blast
  from untranslated_paths_return_the_source
         [of "py ''Hello %@''" True "\<lambda>text. Inl (py ''timed out'')" "py ''timed out''"]
       noskip rest
  have second: "translate_text True (\<lambda>text. Inl (py ''timed out'')) (py ''Hello %@'') =
     \<lparr>returned_text = py ''Hello %@'', returned_error = Some (TranslationError (py ''timed out'')),
      request = Some (py ''Hello __PH0__''), warning = None\<rparr>"
    unfolding ex by blast
  from first second show ?thesis by blast
qed

section \<open>The skip policy\<close>

text \<open>
  C9.  \<open>should_skip_translation\<close> holds exactly when the text is empty or only
  whitespace, or its trimmed form is a unit literal, or what remains when every
  placeholder is removed is, once trimmed, empty or one of the punctuation tokens.  It
  holds for the empty text, for two spaces, for \<open>kg\<close> and for \<open>%@\<close>, and not for
  \<open>Hello %@\<close>.
\<close>

theorem should_skip_translation_iff:
  "(should_skip_translation text \<longleftrightarrow>
      strip text = [] \<or> strip text \<in> set UNITS \<or>
      strip (sub_empty text) = [] \<or> strip (sub_empty text) \<in> set PUNCTUATION) \<and>
   should_skip_translation (py '''') \<and> should_skip_translation (py ''  '') \<and>
   should_skip_translation (py ''kg'') \<and> should_skip_translation (py ''%@'') \<and>
   \<not> should_skip_translation (py ''Hello %@'')"
proof -
  have general: "should_skip_translation text \<longleftrightarrow>
      strip text = [] \<or> strip text \<in> set UNITS \<or>
      strip (sub_empty text) = [] \<or> strip (sub_empty text) \<in> set PUNCTUATION"
    by (auto simp: should_skip_translation_def Let_def strip_def)
  have examples: "should_skip_translation (py '''')" "should_skip_translation (py ''  '')"
    "should_skip_translation (py ''kg'')" "should_skip_translation (py ''%@'')"
    "\<not> should_skip_translation (py ''Hello %@'')"
    by (simp_all add: skip_defs pattern_defs)
  from general examples show ?thesis by blast
qed

text \<open>
  Without the trimming of the remainder the policy is a different one: two placeholders
  with a space between them are skipped, though the remainder, one space, is neither
  empty nor a punctuation token.
\<close>

theorem should_skip_counterexample:
  "should_skip_translation (py ''%@ %@'') \<and> \<not> should_skip_spec (py ''%@ %@'')"
  by (simp add: skip_defs should_skip_spec_def pattern_defs)

section \<open>Units without source text\<close>

text \<open>
  C10.  A unit with no source element, with a source element without text, or with a
  source text that is only whitespace passes through the loop body untouched: the
  counters, the error list, the requests made to the service and the unit itself stay
  as they were.  Wherever it stands in the document, the loop ends as without it, in
  the same counters and state or raising in the same state, and when the loop runs to
  its end it has left the unit as it was.
\<close>

theorem blank_source_unit_is_skipped:
  assumes "unit_source unit = None \<or> unit_source unit = Some None \<or>
           (\<exists>source_text. unit_source unit = Some (Some source_text) \<and> strip source_text = [])"
  shows "process_unit e f xliff_path dry_run only_missing ps unit = Inr (ps, unit) \<and>
         map_sum id fst
           (process_units e f xliff_path dry_run only_missing ps (before @ unit # after)) =
         map_sum id fst
           (process_units e f xliff_path dry_run only_missing ps (before @ after)) \<and>
         (\<forall>r. process_units e f xliff_path dry_run only_missing ps (before @ unit # after) =
                Inr r \<longrightarrow>
              snd r ! length before = unit)"
proof -
  have body: "process_unit e f xliff_path dry_run only_missing ps' unit = Inr (ps', unit)" for ps'
    using assms by (auto simp: process_unit_def)
  have same: "map_sum id fst
           (process_units e f xliff_path dry_run only_missing ps (before @ unit # after)) =
         map_sum id fst
           (process_units e f xliff_path dry_run only_missing ps (before @ after))"
    by (simp add: body process_units_append split: sum.splits)
  have kept: "snd r ! length before = unit"
    if "process_units e f xliff_path dry_run only_missing ps (before @ unit # after) = Inr r" for r
  proof -
    from that obtain r1 r2 where
      r1: "process_units e f xliff_path dry_run only_missing ps before = Inr r1"
      and r: "r = (fst r2, snd r1 @ unit # snd r2)"
      by (auto simp: body process_units_append split: sum.splits)
    from process_units_length [OF r1] r show ?thesis
      by (simp add: nth_append)
  qed
  from body same kept show ?thesis
    by blast
qed

theorem blank_source_unit_is_skipped_witness:
  "process_unit example_env True ''fr.xcloc/fr.xliff'' False False
     (\<lparr>translated_count = 0, error_count = 0, modified = False\<rparr>, state_with crlf_file)
     \<lparr>unit_source = Some (Some (py ''  '')), unit_target = None\<rparr> =
   Inr ((\<lparr>translated_count = 0, error_count = 0, modified = False\<rparr>, state_with crlf_file),
        \<lparr>unit_source = Some (Some (py ''  '')), unit_target = None\<rparr>) \<and>
   (\<exists>r. process_units example_env True ''fr.xcloc/fr.xliff'' False False
          (\<lparr>translated_count = 0, error_count = 0, modified = False\<rparr>, state_with crlf_file)
          ([hello_unit] @ \<lparr>unit_source = Some (Some (py ''  '')), unit_target = None\<rparr> # []) =
        Inr r \<and>
        snd r ! 1 = \<lparr>unit_source = Some (Some (py ''  '')), unit_target = None\<rparr>)"
proof -
  let ?ps = "(\<lparr>translated_count = 0, error_count = 0, modified = False\<rparr>, state_with crlf_file)"
  have h: "unit_source \<lparr>unit_source = Some (Some (py ''  '')), unit_target = None\<rparr> = None \<or>
           unit_source \<lparr>unit_source = Some (Some (py ''  '')), unit_target = None\<rparr> = Some None \<or>
           (\<exists>source_text.
              unit_source \<lparr>unit_source = Some (Some (py ''  '')), unit_target = None\<rparr> =
                Some (Some source_text) \<and> strip source_text = [])"
    by (simp add: strip_def is_space_def)
  have run: "\<exists>r. process_units example_env True ''fr.xcloc/fr.xliff'' False False ?ps
                ([hello_unit] @ \<lparr>unit_source = Some (Some (py ''  '')), unit_target = None\<rparr> # []) =
              Inr r"
    by (simp add: process_unit_def translate_unit_def needs_translation_def example_env_def
          no_control_characters_def hello_unit_def translate_defs skip_defs pattern_defs)
  from blank_source_unit_is_skipped [OF h, of example_env True "''fr.xcloc/fr.xliff''" False False
         ?ps "[hello_unit]" "[]"] run
  show ?thesis
    by auto
qed

end
